theory Spec2Isabelle
  imports Complex_Main "HOL-Library.Sublist"
begin

section \<open>JavaScript strings\<close>

text \<open>
  A JavaScript string is a sequence of UTF-16 code units. A code unit is modelled as a
  natural number (the real ones are below 65536), so that the white space and the line
  terminators beyond ASCII, which \<open>trim\<close>, \<open>\s\<close> and \<open>.\<close> of the source depend on, are part
  of the model. \<open>js\<close> turns an ASCII literal of the source into its code units.
\<close>

type_synonym jsstring = "nat list"

definition js :: "string \<Rightarrow> jsstring" where
  "js s = map of_char s"

text \<open>
  The characters \<open>String.prototype.trim\<close> strips and \<open>\s\<close> matches (WhiteSpace and
  LineTerminator of ECMAScript): TAB, LF, VT, FF, CR, SP, NBSP, U+1680, U+2000 to U+200A,
  U+2028, U+2029, U+202F, U+205F, U+3000 and U+FEFF.
\<close>

definition isWhiteSpace :: "nat \<Rightarrow> bool" where
  "isWhiteSpace c \<longleftrightarrow>
     c = 9 \<or> c = 10 \<or> c = 11 \<or> c = 12 \<or> c = 13 \<or> c = 32 \<or> c = 160 \<or> c = 5760 \<or>
     (8192 \<le> c \<and> c \<le> 8202) \<or> c = 8232 \<or> c = 8233 \<or> c = 8239 \<or> c = 8287 \<or>
     c = 12288 \<or> c = 65279"

text \<open>The line terminators, which \<open>.\<close> of a regular expression does not match: LF, CR,
  U+2028, U+2029.\<close>

definition isLineTerminator :: "nat \<Rightarrow> bool" where
  "isLineTerminator c \<longleftrightarrow> c = 10 \<or> c = 13 \<or> c = 8232 \<or> c = 8233"

definition trim :: "jsstring \<Rightarrow> jsstring" where
  "trim s = rev (dropWhile isWhiteSpace (rev (dropWhile isWhiteSpace s)))"

fun startsWith :: "jsstring \<Rightarrow> jsstring \<Rightarrow> bool" where
  "startsWith s [] = True"
| "startsWith [] (p # ps) = False"
| "startsWith (c # cs) (p # ps) = (c = p \<and> startsWith cs ps)"

definition endsWith :: "jsstring \<Rightarrow> jsstring \<Rightarrow> bool" where
  "endsWith s p = startsWith (rev s) (rev p)"

fun includesStr :: "jsstring \<Rightarrow> jsstring \<Rightarrow> bool" where
  "includesStr [] p = (p = [])"
| "includesStr (c # cs) p = (startsWith (c # cs) p \<or> includesStr cs p)"

text \<open>
  \<open>s.split(sep)\<close> for a string separator: the pieces between the occurrences of \<open>sep\<close>,
  found from left to right without overlap. \<open>acc\<close> holds the current piece, reversed.
  (An empty separator splits into single characters; the source never passes one.)
\<close>

function splitFrom :: "jsstring \<Rightarrow> jsstring \<Rightarrow> jsstring \<Rightarrow> jsstring list" where
  "splitFrom sep acc [] = [rev acc]"
| "splitFrom sep acc (c # cs) =
     (if sep \<noteq> [] \<and> startsWith (c # cs) sep
      then rev acc # splitFrom sep [] (drop (length sep) (c # cs))
      else splitFrom sep (c # acc) cs)"
  by pat_completeness auto
termination
  by (relation "measure (\<lambda>(sep, acc, s). length s)") auto

definition split :: "jsstring \<Rightarrow> jsstring \<Rightarrow> jsstring list" where
  "split s sep = (if sep = [] then map (\<lambda>c. [c]) s else splitFrom sep [] s)"

text \<open>\<open>parts.join(sep)\<close>.\<close>

fun join :: "jsstring list \<Rightarrow> jsstring \<Rightarrow> jsstring" where
  "join [] sep = []"
| "join [p] sep = p"
| "join (p # q # ps) sep = p @ sep @ join (q # ps) sep"

text \<open>
  \<open>s.replace(/pat/g, rep)\<close> for a pattern that is a literal text (\<open>\.\<close>, \<open>\*\<close>, \<open>\*\*\<close>) and
  a replacement without \<open>$\<close>: every occurrence, from left to right without overlap.
\<close>

function replaceAll :: "jsstring \<Rightarrow> jsstring \<Rightarrow> jsstring \<Rightarrow> jsstring" where
  "replaceAll pat rep [] = []"
| "replaceAll pat rep (c # cs) =
     (if pat \<noteq> [] \<and> startsWith (c # cs) pat
      then rep @ replaceAll pat rep (drop (length pat) (c # cs))
      else c # replaceAll pat rep cs)"
  by pat_completeness auto
termination
  by (relation "measure (\<lambda>(pat, rep, s). length s)") auto

section \<open>Line classifier\<close>

text \<open>
  The regular expression \<open>/\/\*.*\*\//\<close> of \<open>countCodeLines\<close>. \<open>closes s\<close> says that
  \<open>.*\*\/\<close> matches at the start of \<open>s\<close>: a run of characters other than line terminators,
  then \<open>*/\<close>. \<open>matchBlock s\<close> is \<open>s.match(/\/\*.*\*\//)\<close> read as a truth value: the pattern
  matches somewhere in \<open>s\<close>.
\<close>

fun closes :: "jsstring \<Rightarrow> bool" where
  "closes [] = False"
| "closes (c # cs) = (startsWith (c # cs) (js ''*/'') \<or> (\<not> isLineTerminator c \<and> closes cs))"

fun matchBlock :: "jsstring \<Rightarrow> bool" where
  "matchBlock [] = False"
| "matchBlock (c # cs) =
     ((startsWith (c # cs) (js ''/*'') \<and> closes (drop 2 (c # cs))) \<or> matchBlock cs)"

text \<open>
  \<open>s.replace(/\/\*.*?\*\//g, '')\<close>. \<open>afterClose s\<close> is the lazy \<open>.*?\*\/\<close> at the start of
  \<open>s\<close>: it stops at the nearest \<open>*/\<close> that is reached through characters other than line
  terminators and returns what follows it. \<open>stripBlock\<close> deletes every match, from left to
  right; where no match starts, the character is kept.
\<close>

fun afterClose :: "jsstring \<Rightarrow> jsstring option" where
  "afterClose [] = None"
| "afterClose (c # cs) =
     (if startsWith (c # cs) (js ''*/'') then Some (drop 2 (c # cs))
      else if isLineTerminator c then None
      else afterClose cs)"

lemma afterClose_length: "afterClose s = Some r \<Longrightarrow> length r < length s"
  by (induction s) (auto split: if_splits)

function stripBlock :: "jsstring \<Rightarrow> jsstring" where
  "stripBlock [] = []"
| "stripBlock (c # cs) =
     (if startsWith (c # cs) (js ''/*'')
      then (case afterClose (drop 2 (c # cs)) of
              Some rest \<Rightarrow> stripBlock rest
            | None \<Rightarrow> c # stripBlock cs)
      else c # stripBlock cs)"
  by pat_completeness auto
termination
proof (relation "measure length")
  fix c cs rest
  assume "afterClose (drop 2 (c # cs)) = Some rest"
  then have "length rest < length (drop 2 (c # cs))"
    by (rule afterClose_length)
  then show "(rest, c # cs) \<in> measure length"
    by simp
qed auto

text \<open>\<open>/^(import|export)\s/.test(s)\<close>: one of the two keywords, then a white-space character.\<close>

definition importRe :: "jsstring \<Rightarrow> bool" where
  "importRe s \<longleftrightarrow>
     (startsWith s (js ''import'') \<or> startsWith s (js ''export'')) \<and>
     (case drop 6 s of [] \<Rightarrow> False | c # _ \<Rightarrow> isWhiteSpace c)"

record lineCounts =
  codeLines :: nat
  commentLines :: nat
  emptyLines :: nat
  importLines :: nat

text \<open>The local variables of \<open>countCodeLines\<close>: the four counters and the flag.\<close>

record loopState = lineCounts +
  inMultiLineComment :: bool

definition initState :: loopState where
  "initState = \<lparr>codeLines = 0, commentLines = 0, emptyLines = 0, importLines = 0,
      inMultiLineComment = False\<rparr>"

text \<open>
  The loop body from the test for a block-comment opener on (source lines 138 to 175), on
  the current \<open>processedLine\<close>. On this path \<open>hasCode\<close> is still false when the last two
  tests are reached, so \<open>codeLines\<close> is incremented there exactly when \<open>processedLine\<close> is
  not empty.
\<close>

definition classifyRest :: "loopState \<Rightarrow> jsstring \<Rightarrow> loopState" where
  "classifyRest st processedLine =
     (if includesStr processedLine (js ''/*'') \<and> \<not> matchBlock processedLine then
        let beforeComment = trim (hd (split processedLine (js ''/*'')));
            hasCode = (beforeComment \<noteq> [])
        in st\<lparr>inMultiLineComment := True,
              commentLines := commentLines st + 1,
              codeLines := codeLines st + (if hasCode then 1 else 0)\<rparr>
      else
        let (p1, st1) =
              (if matchBlock processedLine
               then (trim (stripBlock processedLine), st\<lparr>commentLines := commentLines st + 1\<rparr>)
               else (processedLine, st))
        in if startsWith p1 (js ''//'') then st1\<lparr>commentLines := commentLines st1 + 1\<rparr>
           else
             let (p2, st2) =
                   (if includesStr p1 (js ''//'')
                    then (trim (hd (split p1 (js ''//''))),
                          st1\<lparr>commentLines := commentLines st1 + 1\<rparr>)
                    else (p1, st1))
             in if p2 \<noteq> []
                then st2\<lparr>importLines := importLines st2 + (if importRe p2 then 1 else 0),
                         codeLines := codeLines st2 + 1\<rparr>
                else st2)"

text \<open>
  One iteration of the loop. Inside a block comment, a line with \<open>*/\<close> leaves the comment and
  goes on with what follows the first \<open>*/\<close> (\<open>split('*/').slice(1).join('*/').trim()\<close>).
\<close>

definition classifyLine :: "loopState \<Rightarrow> jsstring \<Rightarrow> loopState" where
  "classifyLine st line =
     (let trimmedLine = trim line in
      if trimmedLine = [] then st\<lparr>emptyLines := emptyLines st + 1\<rparr>
      else if inMultiLineComment st then
        (if includesStr trimmedLine (js ''*/'')
         then classifyRest (st\<lparr>inMultiLineComment := False\<rparr>)
                (trim (join (drop 1 (split trimmedLine (js ''*/''))) (js ''*/'')))
         else st\<lparr>commentLines := commentLines st + 1\<rparr>)
      else classifyRest st trimmedLine)"

definition countCodeLines :: "jsstring list \<Rightarrow> lineCounts" where
  "countCodeLines lines = lineCounts.truncate (foldl classifyLine initState lines)"

section \<open>Ignore rules\<close>

definition ignoredDirs :: "jsstring list" where
  "ignoredDirs = map js
     [''node_modules'', ''dist'', ''build'', ''.git'', ''.vscode'', ''.idea'',
      ''.next'', ''coverage'', ''.nyc_output'', ''out'', ''lib'']"

text \<open>
  \<open>convertGitignoreToRegex\<close> returns \<open>new RegExp(regexPattern)\<close>; the model returns the
  source text \<open>regexPattern\<close>, which determines the regular expression. \<open>'\\.'\<close> is a
  backslash (code unit 92) and a dot; \<open>slice(0, -1)\<close> drops the last character.
\<close>

definition convertGitignoreToRegex :: "jsstring \<Rightarrow> jsstring" where
  "convertGitignoreToRegex pattern =
     (let regexPattern =
            replaceAll (js ''**'') (js ''.*'')
              (replaceAll (js ''*'') (js ''[^/]*'')
                 (replaceAll (js ''.'') (92 # js ''.'') pattern))
      in if endsWith pattern (js ''/'')
         then butlast regexPattern @ js ''(/.*)?$''
         else regexPattern)"

text \<open>The same pipeline without the replacement of \<open>**\<close>, to compare with the one above.\<close>

definition convertWithoutDoubleStar :: "jsstring \<Rightarrow> jsstring" where
  "convertWithoutDoubleStar pattern =
     (let regexPattern =
            replaceAll (js ''*'') (js ''[^/]*'')
              (replaceAll (js ''.'') (92 # js ''.'') pattern)
      in if endsWith pattern (js ''/'')
         then butlast regexPattern @ js ''(/.*)?$''
         else regexPattern)"

text \<open>
  The regular-expression engine and the platform are outside the repository and are
  parameters: \<open>regexValid src\<close> says that \<open>new RegExp(src)\<close> does not throw,
  \<open>regexTest src s\<close> is \<open>new RegExp(src).test(s)\<close>, \<open>pathSep\<close> is \<open>path.sep\<close> and
  \<open>cwd\<close> holds the segments of \<open>process.cwd()\<close>.
\<close>

record platform =
  regexValid :: "jsstring \<Rightarrow> bool"
  regexTest :: "jsstring \<Rightarrow> jsstring \<Rightarrow> bool"
  pathSep :: nat
  cwd :: "jsstring list"

text \<open>The ignore file at the root: absent, present but unreadable, or its content.\<close>

datatype gitignoreFile = Absent | Unreadable | Content jsstring

text \<open>
  \<open>loadGitignore\<close> leaves \<open>gitignorePatterns\<close> empty when the file is absent or reading it
  throws. The assignment happens after the whole chain is evaluated, so a pattern that
  \<open>new RegExp\<close> rejects also leaves the list empty (the \<open>catch\<close> only warns).
\<close>

definition loadGitignore :: "platform \<Rightarrow> gitignoreFile \<Rightarrow> jsstring list" where
  "loadGitignore pf f =
     (case f of
        Absent \<Rightarrow> []
      | Unreadable \<Rightarrow> []
      | Content content \<Rightarrow>
          let patterns =
                map convertGitignoreToRegex
                  (filter (\<lambda>line. line \<noteq> [] \<and> \<not> startsWith line (js ''#''))
                     (map trim (split content [10])))
          in if list_all (regexValid pf) patterns then patterns else [])"

definition shouldIgnorePath :: "platform \<Rightarrow> jsstring list \<Rightarrow> jsstring \<Rightarrow> bool \<Rightarrow> bool" where
  "shouldIgnorePath pf gitignorePatterns relativePath isDirectory =
     (let pathParts = split relativePath [pathSep pf] in
      if list_ex (\<lambda>part. part \<in> set ignoredDirs) pathParts then True
      else list_ex (\<lambda>regex. regexTest pf regex relativePath) gitignorePatterns)"

section \<open>Directory walker\<close>

text \<open>
  A directory entry as \<open>readdirSync(dir, {withFileTypes: true})\<close> gives it: a regular file,
  a directory with its entries, a directory that \<open>readdirSync\<close> fails to read, or an entry
  that is neither a file nor a directory (a link, a socket).
\<close>

datatype dirent =
    File jsstring
  | Directory jsstring "dirent list"
  | UnreadableDirectory jsstring
  | Other jsstring

record fileHandle =
  fullPath :: jsstring
  relativePath :: jsstring
  name :: jsstring

text \<open>\<open>/\.(ts|tsx)$/.test(name)\<close>.\<close>

definition tsRe :: "jsstring \<Rightarrow> bool" where
  "tsRe n \<longleftrightarrow> endsWith n (js ''.ts'') \<or> endsWith n (js ''.tsx'')"

text \<open>
  \<open>findTsFiles(dir, files)\<close>, with \<open>dir\<close> given by its segments below the working
  directory, so that \<open>path.relative(process.cwd(), path.join(dir, item.name))\<close> is the
  segments of \<open>dir\<close> and the name joined by \<open>path.sep\<close>. \<open>forItems\<close> is the \<open>for\<close> loop
  over the entries and \<open>visit\<close> its body; \<open>files.push\<close> appends to the accumulator, which
  the recursive call shares. The recursive call on a directory runs the loop over its
  entries; on a directory that \<open>readdirSync\<close> cannot read, the \<open>catch\<close> warns and \<open>files\<close>
  comes back as it is.
\<close>

fun forItems ::
    "platform \<Rightarrow> jsstring list \<Rightarrow> jsstring list \<Rightarrow> dirent list \<Rightarrow> fileHandle list
      \<Rightarrow> fileHandle list"
  and visit ::
    "platform \<Rightarrow> jsstring list \<Rightarrow> jsstring list \<Rightarrow> dirent \<Rightarrow> fileHandle list
      \<Rightarrow> fileHandle list"
where
  "forItems pf pats dir [] files = files"
| "forItems pf pats dir (item # items) files =
     forItems pf pats dir items (visit pf pats dir item files)"
| "visit pf pats dir (File n) files =
     (let relativePath = join (dir @ [n]) [pathSep pf] in
      if shouldIgnorePath pf pats relativePath False then files
      else if tsRe n
      then files @ [\<lparr>fullPath = join (cwd pf @ dir @ [n]) [pathSep pf],
                      relativePath = relativePath, name = n\<rparr>]
      else files)"
| "visit pf pats dir (Directory n children) files =
     (let relativePath = join (dir @ [n]) [pathSep pf] in
      if shouldIgnorePath pf pats relativePath True then files
      else forItems pf pats (dir @ [n]) children files)"
| "visit pf pats dir (UnreadableDirectory n) files =
     (let relativePath = join (dir @ [n]) [pathSep pf] in
      if shouldIgnorePath pf pats relativePath True then files
      else files)"
| "visit pf pats dir (Other n) files = files"

text \<open>
  The call \<open>findTsFiles()\<close> of \<open>analyze\<close>: \<open>readdir\<close> is what \<open>readdirSync\<close> does on the
  directory, \<open>None\<close> when it throws.
\<close>

definition findTsFiles ::
    "platform \<Rightarrow> jsstring list \<Rightarrow> jsstring list \<Rightarrow> dirent list option \<Rightarrow> fileHandle list
      \<Rightarrow> fileHandle list" where
  "findTsFiles pf pats dir readdir files =
     (case readdir of None \<Rightarrow> files | Some items \<Rightarrow> forItems pf pats dir items files)"

section \<open>File analysis\<close>

text \<open>
  The file system as \<open>analyzeFile\<close> sees it: \<open>readFileSync path\<close> is the decoded content,
  \<open>statSize path\<close> is \<open>fs.statSync(path).size\<close>; \<open>None\<close> when the call throws.
\<close>

record fsys =
  readFileSync :: "jsstring \<Rightarrow> jsstring option"
  statSize :: "jsstring \<Rightarrow> nat option"

record fileStatistics = lineCounts +
  totalLines :: nat
  fileSize :: nat

definition zeroStats :: fileStatistics where
  "zeroStats = \<lparr>codeLines = 0, commentLines = 0, emptyLines = 0, importLines = 0,
      totalLines = 0, fileSize = 0\<rparr>"

text \<open>
  The object literal is evaluated in order: \<open>lines.length\<close>, \<open>countCodeLines(lines)\<close>, then
  \<open>statSync\<close>; an exception of \<open>readFileSync\<close> or of \<open>statSync\<close> ends in the \<open>catch\<close>.
\<close>

definition analyzeFile :: "fsys \<Rightarrow> jsstring \<Rightarrow> fileStatistics" where
  "analyzeFile fs filePath =
     (case readFileSync fs filePath of
        None \<Rightarrow> zeroStats
      | Some content \<Rightarrow>
          let lines = split content [10];
              counts = countCodeLines lines
          in (case statSize fs filePath of
                None \<Rightarrow> zeroStats
              | Some sz \<Rightarrow>
                  \<lparr>codeLines = codeLines counts, commentLines = commentLines counts,
                   emptyLines = emptyLines counts, importLines = importLines counts,
                   totalLines = length lines, fileSize = sz\<rparr>))"

section \<open>Numbers and their rendering\<close>

text \<open>
  The numbers \<open>generateReport\<close> and \<open>formatFileSize\<close> compute with are quotients of
  counts and sizes, which are never negative. A finite value is kept as the exact
  rational; \<open>Infinity\<close> and \<open>NaN\<close> are what a division by zero yields. The source
  computes in binary floating point: a quotient of two counts is rounded there, a division
  by 1024 is exact. The facts below about finite values are about sizes divided by powers
  of 1024 only; those about percentages say which of them are \<open>NaN\<close> or \<open>Infinity\<close>.
\<close>

datatype jsnum = Num rat | Infinity | NaN

text \<open>\<open>a / b\<close> for two counts.\<close>

definition divNum :: "nat \<Rightarrow> nat \<Rightarrow> jsnum" where
  "divNum a b =
     (if b = 0 then (if a = 0 then NaN else Infinity)
      else Num (rat_of_nat a / rat_of_nat b))"

text \<open>\<open>x * k\<close> and \<open>x / k\<close> for a positive constant \<open>k\<close>.\<close>

fun timesNum :: "jsnum \<Rightarrow> rat \<Rightarrow> jsnum" where
  "timesNum (Num x) k = Num (x * k)"
| "timesNum Infinity k = Infinity"
| "timesNum NaN k = NaN"

fun overNum :: "jsnum \<Rightarrow> rat \<Rightarrow> jsnum" where
  "overNum (Num x) k = Num (x / k)"
| "overNum Infinity k = Infinity"
| "overNum NaN k = NaN"

text \<open>\<open>x >= k\<close>: false for \<open>NaN\<close>.\<close>

fun geNum :: "jsnum \<Rightarrow> rat \<Rightarrow> bool" where
  "geNum (Num x) k = (k \<le> x)"
| "geNum Infinity k = True"
| "geNum NaN k = False"

text \<open>\<open>Math.round(x)\<close>: the nearest integer, a half rounded up.\<close>

fun mathRound :: "jsnum \<Rightarrow> jsnum" where
  "mathRound (Num x) = Num (of_int \<lfloor>x + 1 / 2\<rfloor>)"
| "mathRound Infinity = Infinity"
| "mathRound NaN = NaN"

text \<open>The decimal digits of a natural number.\<close>

function showNat :: "nat \<Rightarrow> jsstring" where
  "showNat n = (if n < 10 then [48 + n] else showNat (n div 10) @ [48 + n mod 10])"
  by pat_completeness auto
termination
  by (relation "measure id") auto

declare showNat.simps [simp del]

text \<open>
  \<open>x.toFixed(1)\<close>: \<open>NaN\<close> and \<open>Infinity\<close> are printed by name; a finite value is printed
  through the integer \<open>n\<close> for which \<open>n / 10\<close> is nearest to it (the larger one of two),
  with the point before the last digit and a minus sign for a negative value. This is
  \<open>toFixed(1)\<close> for values below \<open>10^21\<close> only: from \<open>10^21\<close> on JavaScript prints a finite
  value in exponent form, which is not modelled. Every fact below that reads the text of
  a finite value is stated for values below \<open>10^21\<close>.
\<close>

fun toFixed1 :: "jsnum \<Rightarrow> jsstring" where
  "toFixed1 (Num x) =
     (let n = nat \<lfloor>\<bar>x\<bar> * 10 + 1 / 2\<rfloor>
      in (if x < 0 then js ''-'' else []) @ showNat (n div 10) @ js ''.'' @ showNat (n mod 10))"
| "toFixed1 Infinity = js ''Infinity''"
| "toFixed1 NaN = js ''NaN''"

section \<open>Report and ranking\<close>

definition units :: "jsstring list" where
  "units = map js [''B'', ''KB'', ''MB'', ''GB'']"

text \<open>
  The \<open>while\<close> loop of \<open>formatFileSize\<close> on the variables \<open>size\<close> (here \<open>sz\<close>) and
  \<open>unitIndex\<close>.
\<close>

function sizeLoop :: "jsnum \<Rightarrow> nat \<Rightarrow> jsnum \<times> nat" where
  "sizeLoop sz unitIndex =
     (if geNum sz 1024 \<and> unitIndex < length units - 1
      then sizeLoop (overNum sz 1024) (unitIndex + 1)
      else (sz, unitIndex))"
  by pat_completeness auto
termination
  by (relation "measure (\<lambda>(sz, unitIndex). length units - 1 - unitIndex)") auto

declare sizeLoop.simps [simp del]

definition formatFileSize :: "jsnum \<Rightarrow> jsstring" where
  "formatFileSize bytes =
     (let (sz, unitIndex) = sizeLoop bytes 0
      in toFixed1 sz @ js '' '' @ units ! unitIndex)"

text \<open>
  A file as \<open>analyze\<close> passes it on: \<open>{...file, ...this.analyzeFile(file.fullPath)}\<close>. The
  two objects have no key in common, so the merged object is the pair of them.
\<close>

record analyzedFile =
  handle :: fileHandle
  stats :: fileStatistics

definition addStats :: "fileStatistics \<Rightarrow> analyzedFile \<Rightarrow> fileStatistics" where
  "addStats acc f =
     \<lparr>codeLines = codeLines acc + codeLines (stats f),
      commentLines = commentLines acc + commentLines (stats f),
      emptyLines = emptyLines acc + emptyLines (stats f),
      importLines = importLines acc + importLines (stats f),
      totalLines = totalLines acc + totalLines (stats f),
      fileSize = fileSize acc + fileSize (stats f)\<rparr>"

text \<open>
  \<open>((totals.x / totals.totalLines) * 100).toFixed(1)\<close>, the text before the percent sign,
  for a counter \<open>x\<close>.
\<close>

definition percent :: "nat \<Rightarrow> nat \<Rightarrow> jsstring" where
  "percent x allLines = toFixed1 (timesNum (divNum x allLines) 100)"

text \<open>
  What \<open>generateReport\<close> prints, as the values it puts between the fixed texts of its
  lines: the counts (which \<open>toLocaleString\<close> renders), the sizes and the percentages as
  the texts computed for them, the two rounded averages as numbers.
\<close>

record report =
  totalFiles :: nat
  totals :: fileStatistics
  totalSize :: jsstring
  codePercent :: jsstring
  commentPercent :: jsstring
  importPercent :: jsstring
  emptyPercent :: jsstring
  averageLines :: jsnum
  averageCodeLines :: jsnum
  averageSize :: jsstring

definition generateReport :: "analyzedFile list \<Rightarrow> report" where
  "generateReport fileStats =
     (let totalFiles = length fileStats;
          totals = foldl addStats zeroStats fileStats
      in \<lparr>totalFiles = totalFiles,
          totals = totals,
          totalSize = formatFileSize (Num (rat_of_nat (fileSize totals))),
          codePercent = percent (codeLines totals) (totalLines totals),
          commentPercent = percent (commentLines totals) (totalLines totals),
          importPercent = percent (importLines totals) (totalLines totals),
          emptyPercent = percent (emptyLines totals) (totalLines totals),
          averageLines = mathRound (divNum (totalLines totals) totalFiles),
          averageCodeLines = mathRound (divNum (codeLines totals) totalFiles),
          averageSize = formatFileSize (divNum (fileSize totals) totalFiles)\<rparr>)"

text \<open>
  \<open>showRankings\<close> prints the first \<open>limit\<close> files of the list sorted by \<open>b[sortBy] -
  a[sortBy]\<close>; the model returns these files. \<open>Array.prototype.sort\<close> is stable, and so is
  \<open>sort_key\<close>; the key is negated for the descending order.
\<close>

definition showRankings ::
    "analyzedFile list \<Rightarrow> (fileStatistics \<Rightarrow> nat) \<Rightarrow> nat \<Rightarrow> analyzedFile list" where
  "showRankings fileStats sortBy limit =
     take limit (sort_key (\<lambda>f. - int (sortBy (stats f))) fileStats)"

text \<open>The list \<open>fileStats\<close> of \<open>analyze\<close>: every file with its statistics, the files without
  lines dropped.\<close>

definition fileStatsOf :: "fsys \<Rightarrow> fileHandle list \<Rightarrow> analyzedFile list" where
  "fileStatsOf fs tsFiles =
     filter (\<lambda>f. totalLines (stats f) > 0)
       (map (\<lambda>f. \<lparr>handle = f, stats = analyzeFile fs (fullPath f)\<rparr>) tsFiles)"

text \<open>
  \<open>analyze\<close>, after the constructor has loaded the ignore file: \<open>readdir\<close> is what
  \<open>readdirSync\<close> does on the working directory. \<open>None\<close> is the early return when no
  file was found; otherwise the report and the ranking of the five files with the most
  code lines.
\<close>

definition analyze ::
    "platform \<Rightarrow> gitignoreFile \<Rightarrow> dirent list option \<Rightarrow> fsys
      \<Rightarrow> (report \<times> analyzedFile list) option" where
  "analyze pf gitignore readdir fs =
     (let tsFiles = findTsFiles pf (loadGitignore pf gitignore) [] readdir [] in
      if length tsFiles = 0 then None
      else
        let fileStats = fileStatsOf fs tsFiles
        in Some (generateReport fileStats, showRankings fileStats codeLines 5))"

section \<open>Facts about the string operations\<close>

lemma js_simps: "js [] = []" "js (c # cs) = of_char c # js cs"
  by (simp_all add: js_def)

lemma startsWith_take: "startsWith s p \<longleftrightarrow> take (length p) s = p"
  by (induction s p rule: startsWith.induct) auto

lemma startsWith_append [simp]: "startsWith (p @ s) p"
  by (simp add: startsWith_take)

lemma startsWith_decomp: "startsWith s p \<Longrightarrow> s = p @ drop (length p) s"
  by (metis append_take_drop_id startsWith_take)

lemma includesStr_prefix [simp]: "includesStr (p @ b) p"
  using startsWith_append [of p b] by (cases "p @ b") auto

lemma includesStr_append: "includesStr (a @ p @ b) p"
  by (induction a) auto

lemma splitFrom_not_Nil [simp]: "splitFrom sep acc s \<noteq> []"
  by (induction sep acc s rule: splitFrom.induct) auto

lemma split_not_Nil: "sep \<noteq> [] \<Longrightarrow> split s sep \<noteq> []"
  by (simp add: split_def)

lemma splitFrom_acc:
  "splitFrom sep acc s = (rev acc @ hd (splitFrom sep [] s)) # tl (splitFrom sep [] s)"
proof (induction s arbitrary: acc)
  case Nil
  show ?case by simp
next
  case (Cons c cs)
  show ?case
  proof (cases "sep \<noteq> [] \<and> startsWith (c # cs) sep")
    case True
    then show ?thesis by simp
  next
    case False
    have "splitFrom sep acc (c # cs) = splitFrom sep (c # acc) cs"
      using False by auto
    moreover have "splitFrom sep [] (c # cs) = splitFrom sep [c] cs"
      using False by auto
    ultimately show ?thesis
      using Cons.IH [of "c # acc"] Cons.IH [of "[c]"] by simp
  qed
qed

lemma join_Cons: "ps \<noteq> [] \<Longrightarrow> join (p # ps) sep = p @ sep @ join ps sep"
  by (cases ps) auto

lemma join_splitFrom: "sep \<noteq> [] \<Longrightarrow> join (splitFrom sep acc s) sep = rev acc @ s"
proof (induction sep acc s rule: splitFrom.induct)
  case (1 sep acc)
  show ?case by simp
next
  case (2 sep acc c cs)
  show ?case
  proof (cases "startsWith (c # cs) sep")
    case True
    then have "c # cs = sep @ drop (length sep) (c # cs)"
      by (rule startsWith_decomp)
    then show ?thesis
      using 2 True by (simp add: join_Cons)
  next
    case False
    then show ?thesis
      using 2 by simp
  qed
qed

text \<open>Splitting at the first occurrence of the separator.\<close>

lemma startsWith_inside:
  assumes "sep \<noteq> []" "x \<noteq> []"
  shows "startsWith (x @ sep @ post) sep \<longleftrightarrow> startsWith (x @ butlast sep) sep"
proof -
  have "length sep \<le> length (x @ butlast sep)"
    using assms by (cases x) auto
  then have "length sep - length x < length sep"
    using assms by (cases x) auto
  then have "take (length sep) (x @ sep @ post) = take (length sep) (x @ butlast sep)"
    by (simp add: take_butlast)
  then show ?thesis
    by (simp add: startsWith_take)
qed

lemma splitFrom_first:
  assumes "sep \<noteq> []" "\<not> includesStr (pre @ butlast sep) sep"
  shows "splitFrom sep acc (pre @ sep @ post) = (rev acc @ pre) # splitFrom sep [] post"
  using assms(2)
proof (induction pre arbitrary: acc)
  case Nil
  obtain p ps where sep: "sep = p # ps"
    using assms(1) by (cases sep) auto
  have "startsWith (sep @ post) sep" by simp
  then show ?case
    unfolding sep by simp
next
  case (Cons c pre)
  have a: "\<not> startsWith ((c # pre) @ butlast sep) sep" and b: "\<not> includesStr (pre @ butlast sep) sep"
    using Cons.prems by auto
  have "\<not> startsWith ((c # pre) @ sep @ post) sep"
    using a startsWith_inside [OF assms(1), of "c # pre" post] by simp
  then show ?case
    using Cons.IH [OF b, of "c # acc"] by simp
qed

lemma split_after_first:
  assumes "sep \<noteq> []" "\<not> includesStr (pre @ butlast sep) sep"
  shows "join (drop 1 (split (pre @ sep @ post) sep)) sep = post"
  using assms by (simp add: split_def splitFrom_first join_splitFrom)

lemma hd_split_keeps_first:
  assumes "sep \<noteq> []" "\<not> startsWith (c # cs) sep"
  shows "\<exists>t. hd (split (c # cs) sep) = c # t"
proof -
  have "splitFrom sep [] (c # cs) = splitFrom sep [c] cs"
    using assms by simp
  then show ?thesis
    using splitFrom_acc [of sep "[c]" cs] assms(1) by (simp add: split_def)
qed

text \<open>Facts about \<open>trim\<close>.\<close>

lemma trim_Nil_iff: "trim s = [] \<longleftrightarrow> (\<forall>c\<in>set s. isWhiteSpace c)"
proof -
  have "trim s = [] \<longleftrightarrow> (\<forall>c\<in>set (dropWhile isWhiteSpace s). isWhiteSpace c)"
    by (simp add: trim_def dropWhile_eq_Nil_conv)
  also have "\<dots> \<longleftrightarrow> dropWhile isWhiteSpace s = []"
    by (metis hd_dropWhile hd_in_set empty_iff list.set(1))
  also have "\<dots> \<longleftrightarrow> (\<forall>c\<in>set s. isWhiteSpace c)"
    by (simp add: dropWhile_eq_Nil_conv)
  finally show ?thesis .
qed

lemma trim_decomp:
  "s = takeWhile isWhiteSpace s @ trim s @ rev (takeWhile isWhiteSpace (rev (dropWhile isWhiteSpace s)))"
proof -
  let ?d = "dropWhile isWhiteSpace s"
  have "rev ?d = takeWhile isWhiteSpace (rev ?d) @ dropWhile isWhiteSpace (rev ?d)"
    by simp
  then have "?d = rev (dropWhile isWhiteSpace (rev ?d)) @ rev (takeWhile isWhiteSpace (rev ?d))"
    by (metis rev_append rev_rev_ident)
  then show ?thesis
    by (metis takeWhile_dropWhile_id trim_def)
qed

lemma hd_trim: assumes "trim s \<noteq> []" shows "\<not> isWhiteSpace (hd (trim s))"
proof -
  let ?d = "dropWhile isWhiteSpace s"
  have d: "?d \<noteq> []"
  proof
    assume e: "?d = []"
    show False using assms unfolding trim_def e by simp
  qed
  then have nw: "\<not> isWhiteSpace (hd ?d)"
    by (rule hd_dropWhile)
  have "?d = trim s @ rev (takeWhile isWhiteSpace (rev ?d))"
    using trim_decomp [of s] by (metis same_append_eq takeWhile_dropWhile_id)
  then have "hd ?d = hd (trim s)"
    using assms by (metis hd_append2)
  then show ?thesis using nw by simp
qed

lemma last_trim: assumes "trim s \<noteq> []" shows "\<not> isWhiteSpace (last (trim s))"
proof -
  let ?r = "dropWhile isWhiteSpace (rev (dropWhile isWhiteSpace s))"
  have "?r \<noteq> []" using assms by (simp add: trim_def)
  then have "\<not> isWhiteSpace (hd ?r)" by (rule hd_dropWhile)
  then show ?thesis
    using \<open>?r \<noteq> []\<close> by (simp add: trim_def last_rev)
qed

lemma trim_fixed:
  assumes "s \<noteq> []" "\<not> isWhiteSpace (hd s)" "\<not> isWhiteSpace (last s)"
  shows "trim s = s"
proof -
  have a: "dropWhile isWhiteSpace s = s"
    using assms(1,2) by (cases s) auto
  have "dropWhile isWhiteSpace (rev s) = rev s"
    using assms(1,3) by (cases "rev s") (auto simp: last_rev [symmetric] simp del: last_rev)
  then show ?thesis
    by (simp add: trim_def a)
qed

lemma trim_idem [simp]: "trim (trim s) = trim s"
proof (cases "trim s = []")
  case True
  have "trim [] = []" by (simp add: trim_def)
  then show ?thesis unfolding True .
next
  case False
  then show ?thesis
    by (intro trim_fixed hd_trim last_trim)
qed

lemma trim_Nil [simp]: "trim [] = []"
  by (simp add: trim_def)

text \<open>Occurrences of a text in a string.\<close>

lemma includesStr_iff: "includesStr s p \<longleftrightarrow> (\<exists>a b. s = a @ p @ b)"
proof
  assume "includesStr s p"
  then show "\<exists>a b. s = a @ p @ b"
  proof (induction s)
    case Nil
    then show ?case by simp
  next
    case (Cons c cs)
    show ?case
    proof (cases "startsWith (c # cs) p")
      case True
      then have "c # cs = [] @ p @ drop (length p) (c # cs)"
        using startsWith_decomp by fastforce
      then show ?thesis by blast
    next
      case False
      then obtain a b where "cs = a @ p @ b"
        using Cons by auto
      then have "c # cs = (c # a) @ p @ b" by simp
      then show ?thesis by blast
    qed
  qed
next
  assume "\<exists>a b. s = a @ p @ b"
  then show "includesStr s p"
    using includesStr_append by blast
qed

lemma includesStr_trim: "includesStr (trim s) p \<Longrightarrow> includesStr s p"
proof -
  assume "includesStr (trim s) p"
  then obtain a b where "trim s = a @ p @ b"
    using includesStr_iff by blast
  then have "s = (takeWhile isWhiteSpace s @ a) @ p @
      (b @ rev (takeWhile isWhiteSpace (rev (dropWhile isWhiteSpace s))))"
    using trim_decomp [of s] by simp
  then show ?thesis
    using includesStr_iff by blast
qed

lemma includesStr_drop: "includesStr (drop n s) p \<Longrightarrow> includesStr s p"
proof -
  assume "includesStr (drop n s) p"
  then obtain a b where "drop n s = a @ p @ b"
    using includesStr_iff by blast
  then have "s = (take n s @ a) @ p @ b"
    by (metis append.assoc append_take_drop_id)
  then show ?thesis
    using includesStr_iff by blast
qed

section \<open>The line classifier\<close>

lemmas classify_defs =
  classifyLine_def classifyRest_def trim_def isWhiteSpace_def isLineTerminator_def
  split_def importRe_def js_simps

lemma matchBlock_includes: "matchBlock s \<Longrightarrow> includesStr s (js ''/*'')"
  by (induction s) auto

lemma classifyLine_block_close:
  assumes "inMultiLineComment st"
    and "trim line = pre @ js ''*/'' @ post"
    and "\<not> includesStr (pre @ js ''*'') (js ''*/'')"
  shows "classifyLine st line = classifyRest (st\<lparr>inMultiLineComment := False\<rparr>) (trim post)"
proof -
  have ne: "js ''*/'' \<noteq> []" and bl: "butlast (js ''*/'') = js ''*''"
    by (simp_all add: js_simps)
  have "join (drop 1 (split (pre @ js ''*/'' @ post) (js ''*/''))) (js ''*/'') = post"
    using split_after_first [OF ne, of pre post] assms(3) by (simp add: bl)
  moreover have "includesStr (trim line) (js ''*/'')"
    unfolding assms(2) by (rule includesStr_append)
  ultimately show ?thesis
    using assms(1) ne by (simp add: classifyLine_def assms(2) Let_def)
qed

lemma classifyLine_outside:
  assumes "\<not> inMultiLineComment st" "trim line \<noteq> []"
  shows "classifyLine st line = classifyRest st (trim line)"
  using assms by (simp add: classifyLine_def)

lemma classifyRest_plain:
  assumes "p \<noteq> []" "\<not> includesStr p (js ''/*'')" "\<not> includesStr p (js ''//'')"
  shows "classifyRest st p =
     st\<lparr>importLines := importLines st + (if importRe p then 1 else 0),
        codeLines := codeLines st + 1\<rparr>"
proof -
  have "\<not> matchBlock p"
    using assms(2) matchBlock_includes by blast
  moreover have "\<not> startsWith p (js ''//'')"
    using assms(3) by (cases p) (auto simp: js_simps)
  ultimately show ?thesis
    using assms by (simp add: classifyRest_def)
qed

lemma scenario_B_counts:
  "countCodeLines [js ''/* start'', js ''still comment'', js ''end */ const x = 1;''] =
     \<lparr>codeLines = 1, commentLines = 2, emptyLines = 0, importLines = 0\<rparr>"
proof -
  have 1: "classifyLine initState (js ''/* start'') =
      \<lparr>codeLines = 0, commentLines = 1, emptyLines = 0, importLines = 0, inMultiLineComment = True\<rparr>"
    by (simp add: classify_defs initState_def)
  have 2: "classifyLine \<lparr>codeLines = 0, commentLines = 1, emptyLines = 0, importLines = 0, inMultiLineComment = True\<rparr> (js ''still comment'') =
      \<lparr>codeLines = 0, commentLines = 2, emptyLines = 0, importLines = 0, inMultiLineComment = True\<rparr>"
    by (simp add: classify_defs)
  have 3: "classifyLine \<lparr>codeLines = 0, commentLines = 2, emptyLines = 0, importLines = 0, inMultiLineComment = True\<rparr> (js ''end */ const x = 1;'') =
      \<lparr>codeLines = 1, commentLines = 2, emptyLines = 0, importLines = 0, inMultiLineComment = False\<rparr>"
    by (simp add: classify_defs)
  have "foldl classifyLine initState
      [js ''/* start'', js ''still comment'', js ''end */ const x = 1;''] =
      \<lparr>codeLines = 1, commentLines = 2, emptyLines = 0, importLines = 0, inMultiLineComment = False\<rparr>"
    by (simp only: foldl_Cons foldl_Nil 1 2 3)
  then show ?thesis
    by (simp add: countCodeLines_def lineCounts.defs)
qed

text \<open>
  C1, as the specification states it, fails. On the three lines \<open>/* start\<close>,
  \<open>still comment\<close>, \<open>end */ const x = 1;\<close> the classifier returns \<open>commentLines = 2\<close>
  and \<open>codeLines = 1\<close>, not 3 and 0: the text after the terminator is examined and
  counted as code.
\<close>

theorem scenario_B_counterexample:
  "commentLines
     (countCodeLines [js ''/* start'', js ''still comment'', js ''end */ const x = 1;'']) = 2 \<and>
   codeLines
     (countCodeLines [js ''/* start'', js ''still comment'', js ''end */ const x = 1;'']) = 1 \<and>
   commentLines
     (countCodeLines [js ''/* start'', js ''still comment'', js ''end */ const x = 1;'']) \<noteq> 3 \<and>
   codeLines
     (countCodeLines [js ''/* start'', js ''still comment'', js ''end */ const x = 1;'']) \<noteq> 0"
  by (simp add: scenario_B_counts)

text \<open>
  C1, amended. Inside a block comment, let the trimmed line be \<open>pre\<close>, the first \<open>*/\<close>
  (none begins within \<open>pre\<close>) and \<open>post\<close>, with \<open>post\<close> not blank. Then the loop leaves the
  block comment and goes on with \<open>post\<close> as it does with a line met outside a block
  comment: the code, import and blank counters and the flag come out as for the line
  \<open>post\<close> outside a comment. In particular, when \<open>post\<close> holds neither \<open>/*\<close> nor \<open>//\<close> the
  line is counted as code and the block comment is closed. (Nothing is said here about
  \<open>commentLines\<close> on such a line.)
\<close>

theorem block_close_rescans_rest:
  assumes "inMultiLineComment st"
    and "trim line = pre @ js ''*/'' @ post"
    and "\<not> includesStr (pre @ js ''*'') (js ''*/'')"
    and "trim post \<noteq> []"
  shows "codeLines (classifyLine st line) =
           codeLines (classifyLine (st\<lparr>inMultiLineComment := False\<rparr>) post) \<and>
         importLines (classifyLine st line) =
           importLines (classifyLine (st\<lparr>inMultiLineComment := False\<rparr>) post) \<and>
         emptyLines (classifyLine st line) =
           emptyLines (classifyLine (st\<lparr>inMultiLineComment := False\<rparr>) post) \<and>
         inMultiLineComment (classifyLine st line) =
           inMultiLineComment (classifyLine (st\<lparr>inMultiLineComment := False\<rparr>) post) \<and>
         (\<not> includesStr post (js ''/*'') \<and> \<not> includesStr post (js ''//'') \<longrightarrow>
            codeLines (classifyLine st line) = codeLines st + 1 \<and>
            \<not> inMultiLineComment (classifyLine st line))"
proof -
  let ?st = "st\<lparr>inMultiLineComment := False\<rparr>"
  have a: "classifyLine st line = classifyRest ?st (trim post)"
    using assms(1-3) by (rule classifyLine_block_close)
  have b: "classifyLine ?st post = classifyRest ?st (trim post)"
    using assms(4) by (simp add: classifyLine_outside)
  have c: "codeLines (classifyRest ?st (trim post)) = codeLines st + 1 \<and>
      \<not> inMultiLineComment (classifyRest ?st (trim post))"
    if "\<not> includesStr post (js ''/*'')" "\<not> includesStr post (js ''//'')"
  proof -
    have "\<not> includesStr (trim post) (js ''/*'')" "\<not> includesStr (trim post) (js ''//'')"
      using that includesStr_trim by blast+
    then show ?thesis
      using assms(4) by (simp add: classifyRest_plain)
  qed
  show ?thesis
    unfolding a b using c by simp
qed

theorem block_close_rescans_rest_witness:
  "inMultiLineComment \<lparr>codeLines = 0, commentLines = 2, emptyLines = 0, importLines = 0,
       inMultiLineComment = True\<rparr> \<and>
   trim (js ''end */ const x = 1;'') = js ''end '' @ js ''*/'' @ js '' const x = 1;'' \<and>
   \<not> includesStr (js ''end '' @ js ''*'') (js ''*/'') \<and>
   trim (js '' const x = 1;'') \<noteq> [] \<and>
   \<not> includesStr (js '' const x = 1;'') (js ''/*'') \<and>
   \<not> includesStr (js '' const x = 1;'') (js ''//'') \<and>
   codeLines (classifyLine \<lparr>codeLines = 0, commentLines = 2, emptyLines = 0, importLines = 0,
       inMultiLineComment = True\<rparr> (js ''end */ const x = 1;'')) = 1 \<and>
   \<not> inMultiLineComment (classifyLine \<lparr>codeLines = 0, commentLines = 2, emptyLines = 0,
       importLines = 0, inMultiLineComment = True\<rparr> (js ''end */ const x = 1;''))"
proof -
  have h1: "inMultiLineComment \<lparr>codeLines = 0, commentLines = 2, emptyLines = 0,
      importLines = 0, inMultiLineComment = True\<rparr>"
    by simp
  have h2: "trim (js ''end */ const x = 1;'') = js ''end '' @ js ''*/'' @ js '' const x = 1;''"
    by (simp add: trim_def isWhiteSpace_def js_simps)
  have h3: "\<not> includesStr (js ''end '' @ js ''*'') (js ''*/'')"
    by (simp add: js_simps)
  have h4: "trim (js '' const x = 1;'') \<noteq> []"
    by (simp add: trim_def isWhiteSpace_def js_simps)
  have h5: "\<not> includesStr (js '' const x = 1;'') (js ''/*'')"
    and h6: "\<not> includesStr (js '' const x = 1;'') (js ''//'')"
    by (simp_all add: js_simps)
  note t = block_close_rescans_rest [OF h1 h2 h3 h4]
  have c1: "codeLines (classifyLine \<lparr>codeLines = 0, commentLines = 2, emptyLines = 0,
      importLines = 0, inMultiLineComment = True\<rparr> (js ''end */ const x = 1;'')) = 1"
    using t h5 h6 by simp
  have c2: "\<not> inMultiLineComment (classifyLine \<lparr>codeLines = 0, commentLines = 2,
      emptyLines = 0, importLines = 0, inMultiLineComment = True\<rparr> (js ''end */ const x = 1;''))"
    using t h5 h6 by blast
  show ?thesis
    using h1 h2 h3 h4 h5 h6 c1 c2 by blast
qed

text \<open>
  What holds of the counters on every input: a blank line moves \<open>emptyLines\<close> and
  nothing else, so \<open>emptyLines\<close> is the number of blank lines; a line that is not blank
  adds at most one to \<open>codeLines\<close> and at most two to \<open>commentLines\<close>.
\<close>

lemma classifyRest_step:
  "emptyLines (classifyRest st p) = emptyLines st \<and>
   codeLines (classifyRest st p) \<le> codeLines st + 1 \<and>
   commentLines (classifyRest st p) \<le> commentLines st + 2"
  by (simp add: classifyRest_def Let_def)

lemma classifyLine_step:
  "emptyLines (classifyLine st l) = emptyLines st + (if trim l = [] then 1 else 0) \<and>
   codeLines (classifyLine st l) \<le> codeLines st + (if trim l = [] then 0 else 1) \<and>
   commentLines (classifyLine st l) \<le> commentLines st + (if trim l = [] then 0 else 2)"
proof (cases "trim l = []")
  case True
  then show ?thesis by (simp add: classifyLine_def)
next
  case False
  show ?thesis
  proof (cases "inMultiLineComment st \<and> \<not> includesStr (trim l) (js ''*/'')")
    case True
    then show ?thesis using False by (simp add: classifyLine_def)
  next
    case F2: False
    then obtain st' p where "classifyLine st l = classifyRest st' p"
      "emptyLines st' = emptyLines st" "codeLines st' = codeLines st"
      "commentLines st' = commentLines st"
      using False by (cases "inMultiLineComment st") (auto simp: classifyLine_def Let_def)
    then show ?thesis
      using classifyRest_step [of st' p] False by simp
  qed
qed

lemma foldl_classifyLine_bounds:
  "emptyLines (foldl classifyLine st ls) =
     emptyLines st + length (filter (\<lambda>l. trim l = []) ls) \<and>
   codeLines (foldl classifyLine st ls) \<le>
     codeLines st + length (filter (\<lambda>l. trim l \<noteq> []) ls) \<and>
   commentLines (foldl classifyLine st ls) \<le>
     commentLines st + 2 * length (filter (\<lambda>l. trim l \<noteq> []) ls)"
proof (induction ls arbitrary: st)
  case Nil
  show ?case by simp
next
  case (Cons l ls)
  show ?case
    using Cons [of "classifyLine st l"] classifyLine_step [of st l]
    by (cases "trim l = []") auto
qed

lemma countCodeLines_bounds:
  "emptyLines (countCodeLines ls) = length (filter (\<lambda>l. trim l = []) ls) \<and>
   codeLines (countCodeLines ls) \<le> length ls - emptyLines (countCodeLines ls) \<and>
   commentLines (countCodeLines ls) \<le> 2 * (length ls - emptyLines (countCodeLines ls))"
proof -
  have "length (filter (\<lambda>l. trim l \<noteq> []) ls) = length ls - length (filter (\<lambda>l. trim l = []) ls)"
    using sum_length_filter_compl [of "\<lambda>l. trim l = []" ls] by simp
  then show ?thesis
    using foldl_classifyLine_bounds [of initState ls]
    by (simp add: countCodeLines_def lineCounts.defs initState_def)
qed

text \<open>
  C2 on the input \<open>/*\<close>, \<open>*/\<close>. The second line closes the block comment and nothing
  follows the terminator: no counter moves on it, so the two lines give one comment line,
  no code line and no blank line. The line is in no category.
\<close>

theorem closing_line_counted_nowhere:
  "countCodeLines [js ''/*'', js ''*/''] =
     \<lparr>codeLines = 0, commentLines = 1, emptyLines = 0, importLines = 0\<rparr>"
proof -
  have 1: "classifyLine initState (js ''/*'') =
      \<lparr>codeLines = 0, commentLines = 1, emptyLines = 0, importLines = 0, inMultiLineComment = True\<rparr>"
    by (simp add: classify_defs initState_def)
  have 2: "classifyLine \<lparr>codeLines = 0, commentLines = 1, emptyLines = 0, importLines = 0, inMultiLineComment = True\<rparr> (js ''*/'') =
      \<lparr>codeLines = 0, commentLines = 1, emptyLines = 0, importLines = 0, inMultiLineComment = False\<rparr>"
    by (simp add: classify_defs)
  have "foldl classifyLine initState [js ''/*'', js ''*/''] =
      \<lparr>codeLines = 0, commentLines = 1, emptyLines = 0, importLines = 0, inMultiLineComment = False\<rparr>"
    by (simp only: foldl_Cons foldl_Nil 1 2)
  then show ?thesis
    by (simp add: countCodeLines_def lineCounts.defs)
qed

text \<open>
  C3 on the one-line input \<open>/* a */ // b\<close>. The complete block comment increments
  \<open>commentLines\<close>, and so does the line comment that is left after stripping it:
  \<open>commentLines\<close> is 2 for one non-blank line.
\<close>

theorem comment_counted_twice:
  "countCodeLines [js ''/* a */ // b''] =
     \<lparr>codeLines = 0, commentLines = 2, emptyLines = 0, importLines = 0\<rparr>"
proof -
  have "classifyLine initState (js ''/* a */ // b'') =
      \<lparr>codeLines = 0, commentLines = 2, emptyLines = 0, importLines = 0, inMultiLineComment = False\<rparr>"
    by (simp add: classify_defs initState_def)
  then show ?thesis
    by (simp add: countCodeLines_def lineCounts.defs)
qed

text \<open>What \<open>stripBlock\<close> keeps.\<close>

lemma afterClose_Some: "afterClose t = Some r \<Longrightarrow> \<exists>m. t = m @ js ''*/'' @ r"
proof (induction t)
  case Nil
  then show ?case by simp
next
  case (Cons c cs)
  show ?case
  proof (cases "startsWith (c # cs) (js ''*/'')")
    case True
    then have "c # cs = js ''*/'' @ drop (length (js ''*/'')) (c # cs)"
      by (rule startsWith_decomp)
    moreover have "r = drop 2 (c # cs)"
      using Cons.prems True by simp
    ultimately have "c # cs = [] @ js ''*/'' @ r"
      by (simp add: js_simps)
    then show ?thesis by blast
  next
    case False
    then have "afterClose cs = Some r"
      using Cons.prems by (simp split: if_splits)
    then obtain m where "cs = m @ js ''*/'' @ r"
      using Cons.IH by blast
    then have "c # cs = (c # m) @ js ''*/'' @ r" by simp
    then show ?thesis by blast
  qed
qed

lemma afterClose_includes: "afterClose t = Some r \<Longrightarrow> includesStr t (js ''*/'')"
  using afterClose_Some includesStr_iff by blast

lemma stripBlock_absent: "\<not> includesStr s (js ''*/'') \<Longrightarrow> stripBlock s = s"
proof (induction s)
  case Nil
  show ?case by simp
next
  case (Cons c cs)
  have "afterClose (drop 2 (c # cs)) = None"
  proof (rule ccontr)
    assume "afterClose (drop 2 (c # cs)) \<noteq> None"
    then obtain r where "afterClose (drop 2 (c # cs)) = Some r" by blast
    then have "includesStr (drop 2 (c # cs)) (js ''*/'')"
      by (rule afterClose_includes)
    then have "includesStr (c # cs) (js ''*/'')"
      by (rule includesStr_drop)
    then show False using Cons.prems by simp
  qed
  moreover have "\<not> includesStr cs (js ''*/'')"
    using Cons.prems by simp
  ultimately show ?case
    using Cons.IH by simp
qed

lemma stripBlock_keeps_suffix:
  assumes "w \<noteq> []" "hd w \<noteq> 47" "\<not> includesStr w (js ''*/'')"
  shows "suffix w s \<Longrightarrow> suffix w (stripBlock s)"
proof (induction s rule: stripBlock.induct)
  case 1
  then show ?case using assms(1) by simp
next
  case (2 c cs)
  have keep: "suffix w (c # stripBlock cs)" if "suffix w cs \<Longrightarrow> suffix w (stripBlock cs)"
  proof (cases "w = c # cs")
    case True
    then have "stripBlock (c # cs) = c # cs"
      using assms(3) stripBlock_absent by blast
    moreover have "\<not> includesStr cs (js ''*/'')"
      using assms(3) True by auto
    then have "stripBlock cs = cs" by (rule stripBlock_absent)
    ultimately show ?thesis using True by simp
  next
    case False
    then have "suffix w cs"
      using "2.prems" by (simp add: suffix_Cons)
    then show ?thesis
      using that by (simp add: suffix_Cons)
  qed
  show ?case
  proof (cases "startsWith (c # cs) (js ''/*'')")
    case False
    then show ?thesis
      using keep "2.IH"(3) by simp
  next
    case True
    show ?thesis
    proof (cases "afterClose (drop 2 (c # cs))")
      case None
      have "suffix w cs \<Longrightarrow> suffix w (stripBlock cs)"
        using "2.IH"(1) [OF True None] .
      then have "suffix w (c # stripBlock cs)"
        by (rule keep)
      then show ?thesis
        using True None by simp
    next
      case (Some rest)
      then obtain m where m: "drop 2 (c # cs) = m @ js ''*/'' @ rest"
        using afterClose_Some by blast
      have "c # cs = take 2 (c # cs) @ drop 2 (c # cs)" by simp
      then have full: "c # cs = (take 2 (c # cs) @ m @ [42]) @ 47 # rest"
        unfolding m by (simp add: js_simps)
      then have sr: "suffix (47 # rest) (c # cs)"
        by (metis suffixI)
      have "suffix w (47 # rest) \<or> suffix (47 # rest) w"
        using "2.prems" sr by (rule suffix_same_cases)
      then have "suffix w rest"
      proof
        assume "suffix w (47 # rest)"
        then show ?thesis
          using assms(1,2) by (auto simp: suffix_Cons)
      next
        assume "suffix (47 # rest) w"
        then obtain v where v: "w = v @ 47 # rest"
          by (auto simp: suffix_def)
        obtain x where x: "c # cs = x @ w"
          using "2.prems" by (auto simp: suffix_def)
        have e: "x @ v = take 2 (c # cs) @ m @ [42]"
          using full x v by simp
        show ?thesis
        proof (cases "v = []")
          case True
          then show ?thesis using v assms(2) by simp
        next
          case False
          then have "last (x @ v) = last v" by simp
          moreover have "last (take 2 (c # cs) @ m @ [42]) = 42" by simp
          ultimately have "last v = 42"
            using e by simp
          then have bv: "butlast v @ [42] = v"
            using False by (metis append_butlast_last_id)
          have "w = (butlast v @ [42]) @ 47 # rest"
            by (subst bv) (rule v)
          then have "w = butlast v @ js ''*/'' @ rest"
            by (simp add: js_simps)
          then have "includesStr w (js ''*/'')"
            using includesStr_append by simp
          then show ?thesis
            using assms(3) by simp
        qed
      qed
      then have "suffix w (stripBlock rest)"
        by (rule "2.IH"(2) [OF True Some])
      then show ?thesis
        using True Some by simp
    qed
  qed
qed

lemma code_before_line_comment:
  assumes "trim x \<noteq> []" "\<not> startsWith (trim x) (js ''//'')"
  shows "trim (hd (split (trim x) (js ''//''))) \<noteq> []"
proof -
  obtain c cs where p: "trim x = c # cs"
    using assms(1) by (cases "trim x") auto
  have nw: "\<not> isWhiteSpace c"
    using hd_trim [OF assms(1)] p by simp
  have "js ''//'' \<noteq> []" by (simp add: js_simps)
  then obtain t where "hd (split (c # cs) (js ''//'')) = c # t"
    using assms(2) hd_split_keeps_first unfolding p by blast
  then show ?thesis
    unfolding p using nw by (auto simp: trim_Nil_iff)
qed

lemma classifyRest_match:
  assumes "matchBlock p" "trim (stripBlock p) \<noteq> []"
  shows "inMultiLineComment (classifyRest st p) = inMultiLineComment st \<and>
         codeLines (classifyRest st p) =
           codeLines st + (if startsWith (trim (stripBlock p)) (js ''//'') then 0 else 1)"
proof (cases "startsWith (trim (stripBlock p)) (js ''//'')")
  case True
  then show ?thesis
    using assms(1) by (simp add: classifyRest_def)
next
  case False
  have "trim (hd (split (trim (stripBlock p)) (js ''//''))) \<noteq> []"
    using assms(2) False by (rule code_before_line_comment)
  then show ?thesis
    using assms False by (simp add: classifyRest_def)
qed

text \<open>
  C10, as stated, fails on \<open>/* a */ // /* b\<close>: the line holds a complete block comment
  and a later \<open>/*\<close> that nothing closes, but what is left after stripping begins with
  \<open>//\<close>, so the line is counted as a comment twice and not as code.
\<close>

theorem dangling_opener_counterexample:
  "matchBlock (trim (js ''/* a */ // /* b'')) \<and>
   trim (js ''/* a */ // /* b'') = js ''/* a */ // '' @ js ''/*'' @ js '' b'' \<and>
   \<not> includesStr (js ''*'' @ js '' b'') (js ''*/'') \<and>
   countCodeLines [js ''/* a */ // /* b''] =
     \<lparr>codeLines = 0, commentLines = 2, emptyLines = 0, importLines = 0\<rparr>"
proof -
  have t: "trim (js ''/* a */ // /* b'') = js ''/* a */ // /* b''"
    by (simp add: trim_def isWhiteSpace_def js_simps)
  have h2: "matchBlock (trim (js ''/* a */ // /* b''))"
    unfolding t by (simp add: js_simps isLineTerminator_def)
  have h3: "trim (js ''/* a */ // /* b'') = js ''/* a */ // '' @ js ''/*'' @ js '' b''"
    unfolding t by (simp add: js_simps)
  have h4: "\<not> includesStr (js ''*'' @ js '' b'') (js ''*/'')"
    by (simp add: js_simps)
  have "classifyLine initState (js ''/* a */ // /* b'') =
      \<lparr>codeLines = 0, commentLines = 2, emptyLines = 0, importLines = 0, inMultiLineComment = False\<rparr>"
    by (simp add: classify_defs initState_def)
  then have c: "countCodeLines [js ''/* a */ // /* b''] =
     \<lparr>codeLines = 0, commentLines = 2, emptyLines = 0, importLines = 0\<rparr>"
    by (simp add: countCodeLines_def lineCounts.defs)
  show ?thesis
    using h2 h3 h4 c by blast
qed

text \<open>
  C10, amended. Let a line be met outside a block comment, let \<open>/\/\*.*\*\//\<close> match it
  (it holds a complete block comment) and let it hold a \<open>/*\<close> after whose first character
  no \<open>*/\<close> ends (a trailing opener that nothing closes). Then the loop does not enter
  block-comment mode, so the following lines are classified as outside a comment; the
  text from the \<open>*\<close> of that opener on is still there after the complete comments are
  stripped; and the line is counted as code, unless what is left begins with \<open>//\<close>, in
  which case it is not.
\<close>

theorem dangling_opener_after_complete_comment:
  assumes "\<not> inMultiLineComment st"
    and "matchBlock (trim line)"
    and "trim line = pre @ js ''/*'' @ post"
    and "\<not> includesStr (js ''*'' @ post) (js ''*/'')"
  shows "\<not> inMultiLineComment (classifyLine st line) \<and>
         suffix (js ''*'' @ post) (stripBlock (trim line)) \<and>
         codeLines (classifyLine st line) =
           codeLines st +
             (if startsWith (trim (stripBlock (trim line))) (js ''//'') then 0 else 1)"
proof -
  have w: "js ''*'' @ post = 42 # post"
    by (simp add: js_simps)
  have "trim line = (pre @ [47]) @ 42 # post"
    unfolding assms(3) by (simp add: js_simps)
  then have "suffix (42 # post) (trim line)"
    by (metis suffixI)
  moreover have "\<not> includesStr (42 # post) (js ''*/'')"
    using assms(4) unfolding w .
  ultimately have s: "suffix (42 # post) (stripBlock (trim line))"
    by (intro stripBlock_keeps_suffix) simp_all
  then have "42 \<in> set (stripBlock (trim line))"
    by (auto simp: suffix_def)
  moreover have "\<not> isWhiteSpace 42"
    by (simp add: isWhiteSpace_def)
  ultimately have ne: "trim (stripBlock (trim line)) \<noteq> []"
    unfolding trim_Nil_iff by blast
  have "trim line \<noteq> []"
    unfolding assms(3) by (simp add: js_simps)
  then have "classifyLine st line = classifyRest st (trim line)"
    using assms(1) by (simp add: classifyLine_outside)
  then show ?thesis
    using classifyRest_match [OF assms(2) ne, of st] assms(1) s unfolding w by simp
qed

theorem dangling_opener_after_complete_comment_witness:
  "\<not> inMultiLineComment initState \<and>
   matchBlock (trim (js ''/* a */ x /* b'')) \<and>
   trim (js ''/* a */ x /* b'') = js ''/* a */ x '' @ js ''/*'' @ js '' b'' \<and>
   \<not> includesStr (js ''*'' @ js '' b'') (js ''*/'') \<and>
   \<not> inMultiLineComment (classifyLine initState (js ''/* a */ x /* b'')) \<and>
   \<not> startsWith (trim (stripBlock (trim (js ''/* a */ x /* b'')))) (js ''//'') \<and>
   codeLines (classifyLine initState (js ''/* a */ x /* b'')) = 1"
proof -
  have h1: "\<not> inMultiLineComment initState"
    by (simp add: initState_def)
  have t: "trim (js ''/* a */ x /* b'') = js ''/* a */ x /* b''"
    by (simp add: trim_def isWhiteSpace_def js_simps)
  have h2: "matchBlock (trim (js ''/* a */ x /* b''))"
    unfolding t by (simp add: js_simps isLineTerminator_def)
  have h3: "trim (js ''/* a */ x /* b'') = js ''/* a */ x '' @ js ''/*'' @ js '' b''"
    unfolding t by (simp add: js_simps)
  have h4: "\<not> includesStr (js ''*'' @ js '' b'') (js ''*/'')"
    by (simp add: js_simps)
  have h5: "\<not> startsWith (trim (stripBlock (trim (js ''/* a */ x /* b'')))) (js ''//'')"
    unfolding t by (simp add: js_simps isLineTerminator_def trim_def isWhiteSpace_def)
  note c = dangling_opener_after_complete_comment [OF h1 h2 h3 h4]
  have c1: "\<not> inMultiLineComment (classifyLine initState (js ''/* a */ x /* b''))"
    using c by blast
  have c2: "codeLines (classifyLine initState (js ''/* a */ x /* b'')) = 1"
    using c h5 by (simp add: initState_def)
  show ?thesis
    using h1 h2 h3 h4 h5 c1 c2 by blast
qed

section \<open>The ignore-file translation\<close>

lemma replace_star_no_leading_star:
  "\<not> startsWith (replaceAll (js ''*'') (js ''[^/]*'') s) (js ''*'')"
  by (induction s) (auto simp: js_simps)

lemma replace_star_no_double_star:
  "\<not> includesStr (replaceAll (js ''*'') (js ''[^/]*'') s) (js ''**'')"
proof (induction s)
  case Nil
  show ?case by (simp add: js_simps)
next
  case (Cons c cs)
  have "\<not> startsWith (replaceAll (js ''*'') (js ''[^/]*'') cs) (js ''*'')"
    by (rule replace_star_no_leading_star)
  then show ?case
    using Cons.IH by (simp add: js_simps)
qed

lemma replaceAll_absent: "\<not> includesStr s pat \<Longrightarrow> replaceAll pat rep s = s"
  by (induction s) auto

text \<open>
  C7. In \<open>convertGitignoreToRegex\<close> the replacement of \<open>**\<close> by \<open>.*\<close> never applies: for
  every pattern the result is that of the same pipeline without this replacement, because
  the text that the replacement of \<open>*\<close> leaves contains no \<open>**\<close>.
\<close>

theorem convert_double_star_dead:
  "convertGitignoreToRegex pattern = convertWithoutDoubleStar pattern \<and>
   \<not> includesStr
       (replaceAll (js ''*'') (js ''[^/]*'') (replaceAll (js ''.'') (92 # js ''.'') pattern))
       (js ''**'')"
  unfolding convertGitignoreToRegex_def convertWithoutDoubleStar_def
  by (simp only: replace_star_no_double_star replaceAll_absent not_False_eq_True simp_thms)

section \<open>The walker and the fixed ignored names\<close>

lemma shouldIgnorePath_iff:
  "shouldIgnorePath pf pats p d \<longleftrightarrow>
     (\<exists>part\<in>set (split p [pathSep pf]). part \<in> set ignoredDirs) \<or>
     (\<exists>regex\<in>set pats. regexTest pf regex p)"
  by (auto simp: shouldIgnorePath_def Let_def list_ex_iff)

lemma walk_keeps:
  "(\<forall>f\<in>set files. \<not> shouldIgnorePath pf pats (relativePath f) False) \<longrightarrow>
     (\<forall>f\<in>set (forItems pf pats dir items files).
        \<not> shouldIgnorePath pf pats (relativePath f) False)"
  "(\<forall>f\<in>set files. \<not> shouldIgnorePath pf pats (relativePath f) False) \<longrightarrow>
     (\<forall>f\<in>set (visit pf pats dir item files).
        \<not> shouldIgnorePath pf pats (relativePath f) False)"
proof (induction pf pats dir items files and pf pats dir item files rule: forItems_visit.induct)
  case (1 pf pats dir files)
  show ?case by simp
next
  case (2 pf pats dir item items files)
  then show ?case by simp
next
  case (3 pf pats dir n files)
  show ?case by (auto simp: Let_def)
next
  case (4 pf pats dir n children files)
  then show ?case by (auto simp: Let_def)
next
  case (5 pf pats dir n files)
  show ?case by (auto simp: Let_def)
next
  case (6 pf pats dir n files)
  show ?case by simp
qed

text \<open>
  C5. Whatever the tree, the directory and the compiled ignore patterns are, no file that
  \<open>findTsFiles\<close> returns has a segment of its relative path in the fixed set of ignored
  names; and \<open>shouldIgnorePath\<close> is true exactly when a segment of the path is in the
  fixed set or one of the compiled patterns matches the path.
\<close>

theorem fixed_ignored_names_excluded:
  "(\<forall>f\<in>set (findTsFiles pf pats dir readdir []).
      \<forall>part\<in>set (split (relativePath f) [pathSep pf]). part \<notin> set ignoredDirs) \<and>
   (shouldIgnorePath pf pats p d \<longleftrightarrow>
      (\<exists>part\<in>set (split p [pathSep pf]). part \<in> set ignoredDirs) \<or>
      (\<exists>regex\<in>set pats. regexTest pf regex p))"
proof -
  have "\<forall>f\<in>set (findTsFiles pf pats dir readdir []).
      \<not> shouldIgnorePath pf pats (relativePath f) False"
    using walk_keeps(1) [of "[]" pf pats dir] by (cases readdir) (auto simp: findTsFiles_def)
  then show ?thesis
    using shouldIgnorePath_iff by blast
qed

theorem fixed_ignored_names_excluded_witness:
  "findTsFiles \<lparr>regexValid = (\<lambda>_. True), regexTest = (\<lambda>_ _. False), pathSep = 47,
       cwd = [[], js ''p'']\<rparr> [] []
     (Some [Directory (js ''node_modules'') [File (js ''d.ts'')],
            Directory (js ''src'') [File (js ''b.tsx''), File (js ''c.js'')]]) [] =
     [\<lparr>fullPath = js ''/p/src/b.tsx'', relativePath = js ''src/b.tsx'',
       name = js ''b.tsx''\<rparr>] \<and>
   split (js ''src/b.tsx'') [47] = [js ''src'', js ''b.tsx''] \<and>
   js ''src'' \<notin> set ignoredDirs \<and>
   js ''b.tsx'' \<notin> set ignoredDirs \<and>
   js ''node_modules'' \<in> set (split (js ''node_modules/d.ts'') [47]) \<and>
   js ''node_modules'' \<in> set ignoredDirs \<and>
   shouldIgnorePath \<lparr>regexValid = (\<lambda>_. True), regexTest = (\<lambda>_ _. False), pathSep = 47,
       cwd = [[], js ''p'']\<rparr> [] (js ''node_modules/d.ts'') False"
proof -
  let ?pf = "\<lparr>regexValid = (\<lambda>_. True), regexTest = (\<lambda>_ _. False), pathSep = 47,
       cwd = [[], js ''p'']\<rparr>"
  let ?tree = "Some [Directory (js ''node_modules'') [File (js ''d.ts'')],
            Directory (js ''src'') [File (js ''b.tsx''), File (js ''c.js'')]]"
  have ev: "findTsFiles ?pf [] [] ?tree [] =
     [\<lparr>fullPath = js ''/p/src/b.tsx'', relativePath = js ''src/b.tsx'',
       name = js ''b.tsx''\<rparr>]"
    by (simp add: findTsFiles_def shouldIgnorePath_def split_def ignoredDirs_def tsRe_def
        endsWith_def js_simps Let_def)
  have m1: "js ''node_modules'' \<in> set (split (js ''node_modules/d.ts'') [47])"
    by (simp add: split_def js_simps)
  have m2: "js ''node_modules'' \<in> set ignoredDirs"
    by (simp add: ignoredDirs_def)
  note t = fixed_ignored_names_excluded [of ?pf "[]" "[]" ?tree "js ''node_modules/d.ts''" False]
  have sp: "split (js ''src/b.tsx'') [47] = [js ''src'', js ''b.tsx'']"
    by (simp add: split_def js_simps)
  have "\<forall>part\<in>set (split (js ''src/b.tsx'') [47]). part \<notin> set ignoredDirs"
    using t unfolding ev by simp
  then have c1: "js ''src'' \<notin> set ignoredDirs" "js ''b.tsx'' \<notin> set ignoredDirs"
    unfolding sp by simp_all
  have c2: "shouldIgnorePath ?pf [] (js ''node_modules/d.ts'') False"
    using t m1 m2 by auto
  show ?thesis
    using ev sp c1 m1 m2 c2 by blast
qed

section \<open>Files that cannot be analysed\<close>

lemma analyzeFile_failed:
  "readFileSync fs p = None \<or> statSize fs p = None \<Longrightarrow> analyzeFile fs p = zeroStats"
  by (auto simp: analyzeFile_def Let_def split: option.splits)

lemma analyzeFile_ok:
  "readFileSync fs p = Some content \<Longrightarrow> statSize fs p = Some sz \<Longrightarrow>
     totalLines (analyzeFile fs p) = length (split content [10]) \<and>
     emptyLines (analyzeFile fs p) = emptyLines (countCodeLines (split content [10])) \<and>
     fileSize (analyzeFile fs p) = sz"
  by (simp add: analyzeFile_def Let_def)

lemma length_split_newline: "1 \<le> length (split content [10])"
proof -
  have "split content [10] \<noteq> []"
    by (rule split_not_Nil) simp
  then show ?thesis
    by (cases "split content [10]") auto
qed

lemma filter_map_drop:
  assumes "\<And>x. x \<in> set xs \<Longrightarrow> \<not> ok x \<Longrightarrow> \<not> P (g x)"
  shows "filter P (map g xs) = filter P (map g (filter ok xs))"
  using assms by (induction xs) auto

lemma countCodeLines_empty_file:
  "countCodeLines (split [] [10]) =
     \<lparr>codeLines = 0, commentLines = 0, emptyLines = 1, importLines = 0\<rparr>"
  by (simp add: countCodeLines_def split_def classifyLine_def initState_def lineCounts.defs)

text \<open>
  C6. When \<open>readFileSync\<close> or \<open>statSync\<close> throws, \<open>analyzeFile\<close> returns the record of
  zeros. Every record that \<open>analyze\<close> keeps has \<open>totalLines > 0\<close> and belongs to a file
  that was read and measured; the kept list is the one computed from these files alone;
  and the report and the ranking of \<open>analyze\<close> are computed from such a list.
\<close>

theorem failed_file_never_reported:
  "(readFileSync fs p = None \<or> statSize fs p = None \<longrightarrow> analyzeFile fs p = zeroStats) \<and>
   (\<forall>f\<in>set (fileStatsOf fs tsFiles).
      0 < totalLines (stats f) \<and>
      readFileSync fs (fullPath (handle f)) \<noteq> None \<and>
      statSize fs (fullPath (handle f)) \<noteq> None) \<and>
   fileStatsOf fs tsFiles =
     fileStatsOf fs
       (filter (\<lambda>f. readFileSync fs (fullPath f) \<noteq> None \<and> statSize fs (fullPath f) \<noteq> None)
          tsFiles) \<and>
   (\<forall>r. analyze pf gitignore readdir fs = Some r \<longrightarrow>
      (\<exists>fileStats.
         r = (generateReport fileStats, showRankings fileStats codeLines 5) \<and>
         (\<forall>f\<in>set fileStats.
            0 < totalLines (stats f) \<and>
            readFileSync fs (fullPath (handle f)) \<noteq> None \<and>
            statSize fs (fullPath (handle f)) \<noteq> None)))"
proof -
  have z: "\<not> 0 < totalLines zeroStats"
    by (simp add: zeroStats_def)
  have b: "0 < totalLines (stats f) \<and>
      readFileSync fs (fullPath (handle f)) \<noteq> None \<and>
      statSize fs (fullPath (handle f)) \<noteq> None"
    if mem: "f \<in> set (fileStatsOf fs fl)" for f fl
  proof -
    obtain h where h: "f = \<lparr>handle = h, stats = analyzeFile fs (fullPath h)\<rparr>"
      using mem by (auto simp: fileStatsOf_def)
    have pos: "0 < totalLines (stats f)"
      using mem by (simp add: fileStatsOf_def)
    have "analyzeFile fs (fullPath h) \<noteq> zeroStats"
      using pos z h by auto
    then have "\<not> (readFileSync fs (fullPath h) = None \<or> statSize fs (fullPath h) = None)"
      using analyzeFile_failed by blast
    then show ?thesis
      using h pos by simp
  qed
  have c: "fileStatsOf fs tsFiles =
     fileStatsOf fs
       (filter (\<lambda>f. readFileSync fs (fullPath f) \<noteq> None \<and> statSize fs (fullPath f) \<noteq> None)
          tsFiles)"
    unfolding fileStatsOf_def
    by (rule filter_map_drop) (use z analyzeFile_failed in auto)
  have d: "\<exists>fileStats.
         r = (generateReport fileStats, showRankings fileStats codeLines 5) \<and>
         (\<forall>f\<in>set fileStats.
            0 < totalLines (stats f) \<and>
            readFileSync fs (fullPath (handle f)) \<noteq> None \<and>
            statSize fs (fullPath (handle f)) \<noteq> None)"
    if "analyze pf gitignore readdir fs = Some r" for r
  proof -
    let ?L = "fileStatsOf fs (findTsFiles pf (loadGitignore pf gitignore) [] readdir [])"
    have "r = (generateReport ?L, showRankings ?L codeLines 5)"
      using that by (simp add: analyze_def Let_def split: if_splits)
    then show ?thesis
      using b by blast
  qed
  show ?thesis
    using analyzeFile_failed b c d by blast
qed

theorem failed_file_never_reported_witness:
  "readFileSync \<lparr>readFileSync = (\<lambda>p. if p = js ''/p/a.ts'' then Some (js ''let x;'') else None),
       statSize = (\<lambda>p. Some 6)\<rparr> (js ''/p/b.ts'') = None \<and>
   analyzeFile \<lparr>readFileSync = (\<lambda>p. if p = js ''/p/a.ts'' then Some (js ''let x;'') else None),
       statSize = (\<lambda>p. Some 6)\<rparr> (js ''/p/b.ts'') = zeroStats \<and>
   analyze
     \<lparr>regexValid = (\<lambda>s. True), regexTest = (\<lambda>r s. False), pathSep = 47, cwd = [[], js ''p'']\<rparr>
     Absent (Some [File (js ''a.ts''), File (js ''b.ts'')])
     \<lparr>readFileSync = (\<lambda>p. if p = js ''/p/a.ts'' then Some (js ''let x;'') else None),
       statSize = (\<lambda>p. Some 6)\<rparr> =
   Some (generateReport
           [\<lparr>handle = \<lparr>fullPath = js ''/p/a.ts'', relativePath = js ''a.ts'', name = js ''a.ts''\<rparr>,
             stats = \<lparr>codeLines = 1, commentLines = 0, emptyLines = 0, importLines = 0,
                       totalLines = 1, fileSize = 6\<rparr>\<rparr>],
         showRankings
           [\<lparr>handle = \<lparr>fullPath = js ''/p/a.ts'', relativePath = js ''a.ts'', name = js ''a.ts''\<rparr>,
             stats = \<lparr>codeLines = 1, commentLines = 0, emptyLines = 0, importLines = 0,
                       totalLines = 1, fileSize = 6\<rparr>\<rparr>] codeLines 5) \<and>
   fileStatsOf
     \<lparr>readFileSync = (\<lambda>p. if p = js ''/p/a.ts'' then Some (js ''let x;'') else None),
       statSize = (\<lambda>p. Some 6)\<rparr>
     [\<lparr>fullPath = js ''/p/a.ts'', relativePath = js ''a.ts'', name = js ''a.ts''\<rparr>,
      \<lparr>fullPath = js ''/p/b.ts'', relativePath = js ''b.ts'', name = js ''b.ts''\<rparr>] =
     [\<lparr>handle = \<lparr>fullPath = js ''/p/a.ts'', relativePath = js ''a.ts'', name = js ''a.ts''\<rparr>,
       stats = \<lparr>codeLines = 1, commentLines = 0, emptyLines = 0, importLines = 0,
                 totalLines = 1, fileSize = 6\<rparr>\<rparr>]"
proof -
  let ?fs = "\<lparr>readFileSync = (\<lambda>p. if p = js ''/p/a.ts'' then Some (js ''let x;'') else None),
       statSize = (\<lambda>p. Some 6)\<rparr>"
  let ?pf = "\<lparr>regexValid = (\<lambda>s. True), regexTest = (\<lambda>r s. False), pathSep = 47,
       cwd = [[], js ''p'']\<rparr>"
  let ?a = "\<lparr>fullPath = js ''/p/a.ts'', relativePath = js ''a.ts'', name = js ''a.ts''\<rparr>"
  let ?b = "\<lparr>fullPath = js ''/p/b.ts'', relativePath = js ''b.ts'', name = js ''b.ts''\<rparr>"
  let ?sa = "\<lparr>codeLines = 1, commentLines = 0, emptyLines = 0, importLines = 0,
                       totalLines = 1, fileSize = 6\<rparr>"
  note t = failed_file_never_reported [of ?fs "js ''/p/b.ts''" "[?a, ?b]" ?pf Absent
      "Some [File (js ''a.ts''), File (js ''b.ts'')]"]
  have h1: "readFileSync ?fs (js ''/p/b.ts'') = None"
    by (simp add: js_simps)
  have c1: "analyzeFile ?fs (js ''/p/b.ts'') = zeroStats"
    using t h1 by blast
  have w: "findTsFiles ?pf (loadGitignore ?pf Absent) [] (Some [File (js ''a.ts''), File (js ''b.ts'')]) []
      = [?a, ?b]"
    by (simp add: findTsFiles_def loadGitignore_def shouldIgnorePath_def split_def
        ignoredDirs_def tsRe_def endsWith_def js_simps Let_def)
  have cnt: "countCodeLines (split (js ''let x;'') [10]) =
      \<lparr>codeLines = 1, commentLines = 0, emptyLines = 0, importLines = 0\<rparr>"
    by (simp add: countCodeLines_def classify_defs initState_def lineCounts.defs)
  have sa: "analyzeFile ?fs (js ''/p/a.ts'') = ?sa"
    by (simp add: analyzeFile_def Let_def cnt) (simp add: split_def js_simps)
  have f1: "fileStatsOf ?fs [?a] = [\<lparr>handle = ?a, stats = ?sa\<rparr>]"
    by (simp add: fileStatsOf_def sa)
  have "filter (\<lambda>f. readFileSync ?fs (fullPath f) \<noteq> None \<and> statSize ?fs (fullPath f) \<noteq> None)
      [?a, ?b] = [?a]"
    by (simp add: js_simps)
  then have f2: "fileStatsOf ?fs [?a, ?b] = [\<lparr>handle = ?a, stats = ?sa\<rparr>]"
    using t f1 by simp
  have c2: "analyze ?pf Absent (Some [File (js ''a.ts''), File (js ''b.ts'')]) ?fs =
      Some (generateReport [\<lparr>handle = ?a, stats = ?sa\<rparr>],
            showRankings [\<lparr>handle = ?a, stats = ?sa\<rparr>] codeLines 5)"
    unfolding analyze_def w f2 Let_def by simp
  show ?thesis
    using h1 c1 c2 f2 by blast
qed

text \<open>
  C9, as stated, fails when the content is read and \<open>statSync\<close> then throws: the
  \<open>catch\<close> returns the record of zeros, \<open>totalLines\<close> is 0 and the file is dropped.
\<close>

theorem read_succeeds_stat_fails:
  "readFileSync \<lparr>readFileSync = (\<lambda>p. Some (js ''let x;'')), statSize = (\<lambda>p. None)\<rparr> (js ''a.ts'') =
     Some (js ''let x;'') \<and>
   analyzeFile \<lparr>readFileSync = (\<lambda>p. Some (js ''let x;'')), statSize = (\<lambda>p. None)\<rparr> (js ''a.ts'') =
     zeroStats \<and>
   totalLines (analyzeFile \<lparr>readFileSync = (\<lambda>p. Some (js ''let x;'')), statSize = (\<lambda>p. None)\<rparr>
     (js ''a.ts'')) = 0 \<and>
   fileStatsOf \<lparr>readFileSync = (\<lambda>p. Some (js ''let x;'')), statSize = (\<lambda>p. None)\<rparr>
     [\<lparr>fullPath = js ''a.ts'', relativePath = js ''a.ts'', name = js ''a.ts''\<rparr>] = []"
  by (simp add: analyzeFile_def fileStatsOf_def zeroStats_def Let_def)

text \<open>
  C9, amended. For a file whose content is read and whose size \<open>statSync\<close> returns,
  \<open>totalLines\<close> is at least 1; an empty file has \<open>totalLines = 1\<close> and \<open>emptyLines = 1\<close>;
  and every such file among the files found is kept in the list that is reported.
\<close>

theorem readable_file_has_a_line:
  assumes "readFileSync fs p = Some content" and "statSize fs p = Some sz"
  shows "1 \<le> totalLines (analyzeFile fs p) \<and>
         (content = [] \<longrightarrow>
            totalLines (analyzeFile fs p) = 1 \<and> emptyLines (analyzeFile fs p) = 1) \<and>
         (\<forall>f\<in>set tsFiles. fullPath f = p \<longrightarrow>
            \<lparr>handle = f, stats = analyzeFile fs p\<rparr> \<in> set (fileStatsOf fs tsFiles))"
proof -
  note ok = analyzeFile_ok [OF assms]
  have a: "1 \<le> totalLines (analyzeFile fs p)"
    using ok length_split_newline [of content] by simp
  have b: "totalLines (analyzeFile fs p) = 1 \<and> emptyLines (analyzeFile fs p) = 1"
    if "content = []"
    using ok countCodeLines_empty_file unfolding that by (simp add: split_def)
  have c: "\<lparr>handle = f, stats = analyzeFile fs p\<rparr> \<in> set (fileStatsOf fs tsFiles)"
    if "f \<in> set tsFiles" "fullPath f = p" for f
    using that a by (force simp: fileStatsOf_def)
  show ?thesis
    using a b c by blast
qed

theorem readable_file_has_a_line_witness:
  "readFileSync \<lparr>readFileSync = (\<lambda>p. Some []), statSize = (\<lambda>p. Some 0)\<rparr> (js ''a.ts'') = Some [] \<and>
   statSize \<lparr>readFileSync = (\<lambda>p. Some []), statSize = (\<lambda>p. Some 0)\<rparr> (js ''a.ts'') = Some 0 \<and>
   totalLines (analyzeFile \<lparr>readFileSync = (\<lambda>p. Some []), statSize = (\<lambda>p. Some 0)\<rparr> (js ''a.ts'')) = 1 \<and>
   emptyLines (analyzeFile \<lparr>readFileSync = (\<lambda>p. Some []), statSize = (\<lambda>p. Some 0)\<rparr> (js ''a.ts'')) = 1 \<and>
   \<lparr>handle = \<lparr>fullPath = js ''a.ts'', relativePath = js ''a.ts'', name = js ''a.ts''\<rparr>,
     stats = analyzeFile \<lparr>readFileSync = (\<lambda>p. Some []), statSize = (\<lambda>p. Some 0)\<rparr> (js ''a.ts'')\<rparr>
     \<in> set (fileStatsOf \<lparr>readFileSync = (\<lambda>p. Some []), statSize = (\<lambda>p. Some 0)\<rparr>
          [\<lparr>fullPath = js ''a.ts'', relativePath = js ''a.ts'', name = js ''a.ts''\<rparr>])"
proof -
  let ?fs = "\<lparr>readFileSync = (\<lambda>p. Some []), statSize = (\<lambda>p. Some 0)\<rparr>"
  let ?h = "\<lparr>fullPath = js ''a.ts'', relativePath = js ''a.ts'', name = js ''a.ts''\<rparr>"
  have h1: "readFileSync ?fs (js ''a.ts'') = Some []"
    by simp
  have h2: "statSize ?fs (js ''a.ts'') = Some 0"
    by simp
  note t = readable_file_has_a_line [OF h1 h2, of "[?h]"]
  have c1: "totalLines (analyzeFile ?fs (js ''a.ts'')) = 1"
    and c2: "emptyLines (analyzeFile ?fs (js ''a.ts'')) = 1"
    using t by blast+
  have c3: "\<lparr>handle = ?h, stats = analyzeFile ?fs (js ''a.ts'')\<rparr> \<in> set (fileStatsOf ?fs [?h])"
    using t by simp
  show ?thesis
    using h1 h2 c1 c2 c3 by blast
qed

section \<open>The report\<close>

lemma percent_zero_total:
  "percent x 0 = (if x = 0 then js ''NaN'' else js ''Infinity'')"
  by (simp add: percent_def divNum_def)

text \<open>
  C4, as stated, fails: for the empty list every percentage is \<open>0 / 0\<close> and the report
  prints \<open>NaN\<close>.
\<close>

theorem empty_report_prints_NaN:
  "codePercent (generateReport []) = js ''NaN'' \<and>
   commentPercent (generateReport []) = js ''NaN'' \<and>
   importPercent (generateReport []) = js ''NaN'' \<and>
   emptyPercent (generateReport []) = js ''NaN''"
  by (simp add: generateReport_def zeroStats_def percent_def divNum_def)

text \<open>
  C4, amended. \<open>generateReport\<close> does not guard the division: when the sum of
  \<open>totalLines\<close> is 0, each of the four percentages is printed as \<open>NaN\<close> when its own
  counter is 0 and as \<open>Infinity\<close> otherwise.
\<close>

theorem report_percentages_unguarded:
  assumes "totalLines (totals (generateReport fileStats)) = 0"
  shows "codePercent (generateReport fileStats) =
           (if codeLines (totals (generateReport fileStats)) = 0
            then js ''NaN'' else js ''Infinity'') \<and>
         commentPercent (generateReport fileStats) =
           (if commentLines (totals (generateReport fileStats)) = 0
            then js ''NaN'' else js ''Infinity'') \<and>
         importPercent (generateReport fileStats) =
           (if importLines (totals (generateReport fileStats)) = 0
            then js ''NaN'' else js ''Infinity'') \<and>
         emptyPercent (generateReport fileStats) =
           (if emptyLines (totals (generateReport fileStats)) = 0
            then js ''NaN'' else js ''Infinity'')"
  using assms by (simp add: generateReport_def Let_def percent_zero_total)

theorem report_percentages_unguarded_witness:
  "totalLines (totals (generateReport [])) = 0 \<and>
   codePercent (generateReport []) = js ''NaN'' \<and>
   commentPercent (generateReport []) = js ''NaN'' \<and>
   importPercent (generateReport []) = js ''NaN'' \<and>
   emptyPercent (generateReport []) = js ''NaN''"
proof -
  have h: "totalLines (totals (generateReport [])) = 0"
    by (simp add: generateReport_def zeroStats_def)
  have z: "codeLines (totals (generateReport [])) = 0"
    "commentLines (totals (generateReport [])) = 0"
    "importLines (totals (generateReport [])) = 0"
    "emptyLines (totals (generateReport [])) = 0"
    by (simp_all add: generateReport_def zeroStats_def)
  show ?thesis
    using report_percentages_unguarded [OF h] h by (simp add: z)
qed

section \<open>The rendering of a file size\<close>

lemma length_units: "length units = 4"
  by (simp add: units_def)

lemma sizeLoop_stop:
  "\<not> (geNum sz 1024 \<and> i < length units - 1) \<Longrightarrow> sizeLoop sz i = (sz, i)"
  by (subst sizeLoop.simps) auto

lemma sizeLoop_step:
  "geNum sz 1024 \<Longrightarrow> i < length units - 1 \<Longrightarrow> sizeLoop sz i = sizeLoop (overNum sz 1024) (i + 1)"
  by (subst sizeLoop.simps) simp

lemma sizeLoop_Num:
  assumes "i \<le> 3"
  shows "\<exists>k. i \<le> k \<and> k \<le> 3 \<and> sizeLoop (Num x) i = (Num (x / 1024 ^ (k - i)), k) \<and>
           (\<forall>j. i \<le> j \<and> j < k \<longrightarrow> 1024 \<le> x / 1024 ^ (j - i)) \<and>
           (k < 3 \<longrightarrow> x / 1024 ^ (k - i) < 1024)"
  using assms
proof (induction "3 - i" arbitrary: i x)
  case 0
  then have i: "i = 3" by simp
  have "sizeLoop (Num x) 3 = (Num x, 3)"
    by (rule sizeLoop_stop) (simp add: length_units)
  then show ?case
    unfolding i by (intro exI [of _ 3]) simp
next
  case (Suc d)
  then have i: "i < 3" by simp
  show ?case
  proof (cases "1024 \<le> x")
    case False
    then have "sizeLoop (Num x) i = (Num x, i)"
      by (intro sizeLoop_stop) simp
    then show ?thesis
      using False i by (intro exI [of _ i]) simp
  next
    case True
    have d: "d = 3 - (i + 1)" and le: "i + 1 \<le> 3"
      using Suc.hyps(2) i by simp_all
    obtain k where k: "i + 1 \<le> k" "k \<le> 3"
      "sizeLoop (Num (x / 1024)) (i + 1) = (Num (x / 1024 / 1024 ^ (k - (i + 1))), k)"
      "\<forall>j. i + 1 \<le> j \<and> j < k \<longrightarrow> 1024 \<le> x / 1024 / 1024 ^ (j - (i + 1))"
      "k < 3 \<longrightarrow> x / 1024 / 1024 ^ (k - (i + 1)) < 1024"
      using Suc.hyps(1) [OF d le, of "x / 1024"] by blast
    have pw: "x / 1024 / 1024 ^ (j - (i + 1)) = x / 1024 ^ (j - i)" if "i + 1 \<le> j" for j
    proof -
      have "j - i = Suc (j - (i + 1))" using that by simp
      then show ?thesis by simp
    qed
    have "sizeLoop (Num x) i = sizeLoop (overNum (Num x) 1024) (i + 1)"
      using True i by (intro sizeLoop_step) (simp_all add: length_units)
    then have 1: "sizeLoop (Num x) i = (Num (x / 1024 ^ (k - i)), k)"
      using k(3) [unfolded pw [OF k(1)]] by simp
    have 2: "1024 \<le> x / 1024 ^ (j - i)" if "i \<le> j" "j < k" for j
    proof (cases "j = i")
      case True
      then show ?thesis using \<open>1024 \<le> x\<close> by simp
    next
      case False
      then have ij: "i + 1 \<le> j" using that by simp
      then have "1024 \<le> x / 1024 / 1024 ^ (j - (i + 1))"
        using k(4) that by blast
      then show ?thesis
        by (simp only: pw [OF ij])
    qed
    have 3: "k < 3 \<longrightarrow> x / 1024 ^ (k - i) < 1024"
      using k(5) [unfolded pw [OF k(1)]] .
    show ?thesis
      using k(1,2) 1 2 3 by (intro exI [of _ k]) simp
  qed
qed

lemma showNat_digit: "n < 10 \<Longrightarrow> showNat n = [48 + n]"
  by (subst showNat.simps) simp

lemma toFixed1_nonneg:
  assumes "0 \<le> y" and "y < 10 ^ 21"
  shows "toFixed1 (Num y) =
     showNat (nat \<lfloor>y * 10 + 1 / 2\<rfloor> div 10) @ js ''.'' @ [48 + nat \<lfloor>y * 10 + 1 / 2\<rfloor> mod 10]"
  using assms(1) by (simp add: Let_def showNat_digit abs_of_nonneg)

text \<open>
  C8. For a size that is not negative and below \<open>2^30 * 10^21\<close> bytes, \<open>formatFileSize\<close>
  divides by 1024 as long as the value is at least 1024 and the unit is not yet \<open>GB\<close>: the
  unit is the \<open>k\<close>-th of \<open>B\<close>, \<open>KB\<close>, \<open>MB\<close>, \<open>GB\<close>, the value was at least 1024 at every
  earlier unit, and it is below 1024 unless the unit is \<open>GB\<close>. The scaled value is below
  \<open>10^21\<close>, where \<open>toFixed(1)\<close> prints decimal digits, and the text is the scaled value
  rounded to one decimal (digits, a point, one digit), a space and the unit. (From
  \<open>2^30 * 10^21\<close> bytes on the value in \<open>GB\<close> reaches \<open>10^21\<close> and JavaScript prints it in
  exponent form; no file size is near that.)
\<close>

theorem formatFileSize_unit:
  assumes "0 \<le> bytes" and "bytes < 2 ^ 30 * 10 ^ 21"
  shows "\<exists>k\<le>3.
     (\<forall>j<k. 1024 \<le> bytes / 1024 ^ j) \<and>
     (k < 3 \<longrightarrow> bytes / 1024 ^ k < 1024) \<and>
     bytes / 1024 ^ k < 10 ^ 21 \<and>
     formatFileSize (Num bytes) = toFixed1 (Num (bytes / 1024 ^ k)) @ js '' '' @ units ! k \<and>
     toFixed1 (Num (bytes / 1024 ^ k)) =
       showNat (nat \<lfloor>bytes / 1024 ^ k * 10 + 1 / 2\<rfloor> div 10) @ js ''.'' @
       [48 + nat \<lfloor>bytes / 1024 ^ k * 10 + 1 / 2\<rfloor> mod 10]"
proof -
  obtain k where k: "k \<le> 3" "sizeLoop (Num bytes) 0 = (Num (bytes / 1024 ^ (k - 0)), k)"
    "\<forall>j. 0 \<le> j \<and> j < k \<longrightarrow> 1024 \<le> bytes / 1024 ^ (j - 0)"
    "k < 3 \<longrightarrow> bytes / 1024 ^ (k - 0) < 1024"
    using sizeLoop_Num [of 0 bytes] by blast
  have b: "bytes / 1024 ^ k < 10 ^ 21"
  proof (cases "k < 3")
    case True
    then have "bytes / 1024 ^ k < 1024"
      using k(4) by simp
    also have "(1024::rat) < 10 ^ 21"
      by simp
    finally show ?thesis .
  next
    case False
    then have k3: "k = 3"
      using k(1) by simp
    have "(1024::rat) ^ 3 = 2 ^ 30"
      by simp
    then have "bytes / 1024 ^ 3 < 10 ^ 21 \<longleftrightarrow> bytes < 10 ^ 21 * 2 ^ 30"
      by (simp add: pos_divide_less_eq)
    then show ?thesis
      unfolding k3 using assms(2) by (simp add: mult.commute)
  qed
  have "0 \<le> bytes / 1024 ^ k"
    using assms(1) by simp
  then have r: "toFixed1 (Num (bytes / 1024 ^ k)) =
       showNat (nat \<lfloor>bytes / 1024 ^ k * 10 + 1 / 2\<rfloor> div 10) @ js ''.'' @
       [48 + nat \<lfloor>bytes / 1024 ^ k * 10 + 1 / 2\<rfloor> mod 10]"
    using b by (rule toFixed1_nonneg)
  have f: "formatFileSize (Num bytes) = toFixed1 (Num (bytes / 1024 ^ k)) @ js '' '' @ units ! k"
    using k(2) by (simp add: formatFileSize_def)
  show ?thesis
    using k(1,3,4) b f r by (intro exI [of _ k]) simp
qed

theorem formatFileSize_unit_witness:
  "(0::rat) \<le> 1536 \<and> (1536::rat) < 2 ^ 30 * 10 ^ 21 \<and>
   (1024::rat) \<le> 1536 / 1024 ^ 0 \<and> (1536::rat) / 1024 ^ 1 < 1024 \<and>
   (1536::rat) / 1024 ^ 1 < 10 ^ 21 \<and>
   formatFileSize (Num 1536) = js ''1.5 KB''"
proof -
  have h: "(0::rat) \<le> 1536" by simp
  have h2: "(1536::rat) < 2 ^ 30 * 10 ^ 21" by simp
  obtain k where k: "k \<le> 3"
    "\<forall>j<k. (1024::rat) \<le> 1536 / 1024 ^ j"
    "k < 3 \<longrightarrow> (1536::rat) / 1024 ^ k < 1024"
    "formatFileSize (Num 1536) = toFixed1 (Num (1536 / 1024 ^ k)) @ js '' '' @ units ! k"
    using formatFileSize_unit [OF h h2] by blast
  have "k \<noteq> 0"
  proof
    assume "k = 0"
    then have "(1536::rat) / 1024 ^ 0 < 1024"
      using k(3) by simp
    then show False by simp
  qed
  moreover have "\<not> 1 < k"
  proof
    assume "1 < k"
    then have "(1024::rat) \<le> 1536 / 1024 ^ 1"
      using k(2) by blast
    then show False by simp
  qed
  ultimately have k1: "k = 1" by simp
  have fl: "\<lfloor>(31::rat) / 2\<rfloor> = 15"
    by (rule floor_unique) simp_all
  have "toFixed1 (Num (1536 / 1024 ^ 1)) = js ''1.5''"
    by (simp add: showNat_digit js_simps Let_def fl)
  then have "formatFileSize (Num 1536) = js ''1.5 KB''"
    using k(4) unfolding k1 by (simp add: units_def js_simps)
  then show ?thesis
    by simp
qed

end
